theory Spec2Isabelle
  imports Main "HOL-Library.Word"
begin

section \<open>JavaScript strings\<close>

text \<open>
  A JavaScript string is a sequence of 16-bit code units. String literals of the source
  are written with \<open>str\<close>, which maps every character of an Isabelle literal to its code
  unit; code units outside ASCII (the E-acute of the word Etape, code unit C9) are
  written as numerals.
\<close>

type_synonym jschar = "16 word"
type_synonym jsstring = "jschar list"

definition str :: "string \<Rightarrow> jsstring" where
  "str s = map (\<lambda>c. of_nat (of_char c)) s"

text \<open>The class \<^verbatim>\<open>\d\<close> of a regular expression without the unicode flag: \<^verbatim>\<open>[0-9]\<close>.\<close>

definition isDigit :: "jschar \<Rightarrow> bool" where
  "isDigit c = (0x30 \<le> c \<and> c \<le> 0x39)"

text \<open>\<^verbatim>\<open>a || b\<close> on strings: the empty string is the only falsy string.\<close>

definition js_or :: "jsstring \<Rightarrow> jsstring \<Rightarrow> jsstring" where
  "js_or a b = (if a = [] then b else a)"

text \<open>A non-negative integer interpolated into a template literal or a JSX child.\<close>

fun show_nat :: "nat \<Rightarrow> jsstring" where
  "show_nat n = (if n < 10 then [0x30 + of_nat n] else show_nat (n div 10) @ [0x30 + of_nat (n mod 10)])"

declare show_nat.simps [simp del]

section \<open>Data model\<close>

text \<open>
  \<^verbatim>\<open>interface TestStep { id: string; title: string; content: string; }\<close>
  \<^verbatim>\<open>interface AppData { jiraNumber; jiraName; type: 'TMD' | 'TMA'; date; environment:
  'FRECMCOR' | 'FPOST'; conclusion: 'OK' | 'KO'; localImage: string | null; steps: TestStep[] }\<close>
\<close>

record TestStep =
  id_step :: jsstring
  title :: jsstring
  content :: jsstring

datatype record_type = TMD | TMA
datatype env = FRECMCOR | FPOST
datatype concl = OK | KO

record AppData =
  jiraNumber :: jsstring
  jiraName :: jsstring
  type_field :: record_type
  date :: jsstring
  environment :: env
  conclusion :: concl
  localImage :: "jsstring option"
  steps :: "TestStep list"

fun type_str :: "record_type \<Rightarrow> jsstring" where
  "type_str TMD = str ''TMD''"
| "type_str TMA = str ''TMA''"

fun env_str :: "env \<Rightarrow> jsstring" where
  "env_str FRECMCOR = str ''FRECMCOR''"
| "env_str FPOST = str ''FPOST''"

fun concl_str :: "concl \<Rightarrow> jsstring" where
  "concl_str OK = str ''OK''"
| "concl_str KO = str ''KO''"

text \<open>The literal \<^verbatim>\<open>'Etape '\<close> that starts a generated title and a rendered step heading.\<close>

definition etape :: jsstring where
  "etape = 0xC9 # str ''tape ''"

text \<open>
  \<^verbatim>\<open>INITIAL_DATA\<close>. The day of creation and the identifier drawn by
  \<^verbatim>\<open>crypto.randomUUID()\<close> come from the environment and are parameters.
\<close>

definition INITIAL_DATA :: "jsstring \<Rightarrow> jsstring \<Rightarrow> AppData" where
  "INITIAL_DATA today uuid =
     \<lparr>jiraNumber = [], jiraName = [], type_field = TMD, date = today,
      environment = FRECMCOR, conclusion = OK, localImage = None,
      steps = [\<lparr>id_step = uuid, title = etape @ str ''1'', content = []\<rparr>]\<rparr>"

section \<open>Step operations\<close>


text \<open>\<^verbatim>\<open>steps: prev.steps.filter(step => step.id !== id)\<close>\<close>

definition removeStep :: "jsstring \<Rightarrow> AppData \<Rightarrow> AppData" where
  "removeStep i prev = prev\<lparr>steps := filter (\<lambda>step. id_step step \<noteq> i) (steps prev)\<rparr>"

text \<open>
  \<^verbatim>\<open>Partial<TestStep>\<close>: every field may be absent. The spread
  \<^verbatim>\<open>{ ...step, ...updates }\<close> overrides the fields that \<open>updates\<close> carries.
\<close>

record StepUpdates =
  upd_id :: "jsstring option"
  upd_title :: "jsstring option"
  upd_content :: "jsstring option"

definition spread :: "TestStep \<Rightarrow> StepUpdates \<Rightarrow> TestStep" where
  "spread step updates =
     \<lparr>id_step = (case upd_id updates of None \<Rightarrow> id_step step | Some v \<Rightarrow> v),
      title = (case upd_title updates of None \<Rightarrow> title step | Some v \<Rightarrow> v),
      content = (case upd_content updates of None \<Rightarrow> content step | Some v \<Rightarrow> v)\<rparr>"

text \<open>\<^verbatim>\<open>steps: prev.steps.map(step => step.id === id ? { ...step, ...updates } : step)\<close>\<close>

definition updateStep :: "jsstring \<Rightarrow> StepUpdates \<Rightarrow> AppData \<Rightarrow> AppData" where
  "updateStep i updates prev =
     prev\<lparr>steps := map (\<lambda>step. if id_step step = i then spread step updates else step) (steps prev)\<rparr>"

section \<open>The SQL snippet\<close>

text \<open>\<^verbatim>\<open>const jiraDigits = data.jiraNumber.replace(/\D/g, '');\<close>\<close>

fun replace_non_digits :: "jsstring \<Rightarrow> jsstring" where
  "replace_non_digits [] = []"
| "replace_non_digits (c # cs) =
     (if isDigit c then c # replace_non_digits cs else replace_non_digits cs)"

definition jiraDigits :: "AppData \<Rightarrow> jsstring" where
  "jiraDigits data = replace_non_digits (jiraNumber data)"

text \<open>
  \<^verbatim>\<open>const sqlQuery = `select * from ps_s1_scripts_tbl where s1_script_name like
  '%${jiraDigits || 'XXXX'}J%';`;\<close>
\<close>

definition sql_prefix :: jsstring where
  "sql_prefix = str ''select * from ps_s1_scripts_tbl where s1_script_name like '' @ [0x27, 0x25]"

definition sql_suffix :: jsstring where
  "sql_suffix = str ''J%'' @ [0x27, 0x3B]"

definition sqlQuery :: "AppData \<Rightarrow> jsstring" where
  "sqlQuery data = sql_prefix @ js_or (jiraDigits data) (str ''XXXX'') @ sql_suffix"

section \<open>Rendered markup\<close>

text \<open>
  The element tree a component returns: an element with its tag, its attributes and its
  children, a text child, or markup inserted verbatim by
  \<^verbatim>\<open>dangerouslySetInnerHTML\<close>. Event handlers are not part of the markup.
\<close>

datatype node =
    Elem string "(string \<times> jsstring) list" "node list"
  | Text jsstring
  | InnerHTML jsstring

definition cls :: "string \<Rightarrow> (string \<times> jsstring)" where
  "cls c = (''className'', str c)"

definition avoid_break :: "(string \<times> jsstring)" where
  "avoid_break = (''style.pageBreakInside'', str ''avoid'')"

text \<open>The cover page, lines 1082 to 1108. The date is formatted by the host's
  \<^verbatim>\<open>toLocaleDateString('fr-FR')\<close>, a parameter here.\<close>

definition cover_page :: "(jsstring \<Rightarrow> jsstring) \<Rightarrow> AppData \<Rightarrow> node" where
  "cover_page fmtDate data =
     Elem ''div'' [cls ''pdf-page'']
       [Elem ''div'' [cls ''pdf-header-band'']
          [Elem ''div'' [cls ''pdf-header-left''] [Text (js_or (jiraNumber data) (str ''JIRA-XXX''))],
           Elem ''div'' [cls ''pdf-header-right''] [Text (js_or (jiraName data) (str ''NOM DE LA JIRA''))]],
        Elem ''div'' [cls ''pdf-sub-header'']
          [Text (str ''[''), Text (type_str (type_field data)), Text (str ''] - [''),
           Text (fmtDate (date data)), Text (str '']'')],
        Elem ''div'' [cls ''flex flex-col items-center justify-center'', (''style.height'', str ''200mm'')]
          [Elem ''img'' [(''src'', str ''/icon.png''), (''alt'', str ''Logo Cahier de Tests''),
                        cls ''w-[576px] h-[576px] object-contain''] [],
           Elem ''p'' [cls ''mt-8 text-2xl font-bold text-slate-400 uppercase tracking-widest'']
             [Text (str ''Cahier de Recette'')]]]"

definition h2_class :: string where
  "h2_class = ''text-xl font-bold mb-4 border-b-2 border-red-900 text-red-900 pb-2''"

text \<open>Lines 1125 to 1130: the SQL block, with the digits handed down by the caller.\<close>

definition sql_block :: "jsstring \<Rightarrow> node" where
  "sql_block digits =
     Elem ''div'' [cls ''mb-8'']
       [Elem ''p'' [cls ''font-semibold mb-2'']
          [Text (str ''Requ'' @ [0xEA] @ str ''te SQL de v'' @ [0xE9] @ str ''rification :'')],
        Elem ''div'' [cls ''sql-block'']
          [Text sql_prefix, Text (js_or digits (str ''XXXX'')), Text sql_suffix]]"

text \<open>The same block in the first revision (lines 488 to 493), around another query:
  \<^verbatim>\<open>select * from psoprdzfn where oprid='{jiraDigits || 'XXXX'}';\<close>\<close>

definition sql_prefix_v1 :: jsstring where
  "sql_prefix_v1 = str ''select * from psoprdzfn where oprid='' @ [0x27]"

definition sql_suffix_v1 :: jsstring where
  "sql_suffix_v1 = [0x27, 0x3B]"

definition sql_block_v1 :: "jsstring \<Rightarrow> node" where
  "sql_block_v1 digits =
     Elem ''div'' [cls ''mb-8'']
       [Elem ''p'' [cls ''font-semibold mb-2'']
          [Text (str ''Requ'' @ [0xEA] @ str ''te SQL de v'' @ [0xE9] @ str ''rification :'')],
        Elem ''div'' [cls ''sql-block'']
          [Text sql_prefix_v1, Text (js_or digits (str ''XXXX'')), Text sql_suffix_v1]]"

text \<open>Lines 1132 to 1137: \<^verbatim>\<open>{data.localImage && (...)}\<close>; \<^verbatim>\<open>null\<close> and the
  empty string are falsy and render nothing.\<close>

definition image_block :: "jsstring option \<Rightarrow> node list" where
  "image_block img =
     (case img of
        None \<Rightarrow> []
      | Some src \<Rightarrow>
          if src = [] then []
          else [Elem ''div'' [cls ''mb-8'']
                  [Elem ''p'' [cls ''font-semibold mb-2''] [Text (str ''Ex'' @ [0xE9] @ str ''cution SQL :'')],
                   Elem ''img'' [(''src'', src), (''alt'', str ''Local''), cls ''pdf-image-main''] []]])"

definition env_block :: "env \<Rightarrow> node" where
  "env_block e =
     Elem ''div'' [cls ''mb-8'']
       [Elem ''h3'' [cls ''text-lg font-bold mb-2''] [Text (str ''Environnement de test'')],
        Elem ''p'' [cls ''bg-slate-100 p-3 rounded border border-slate-300 inline-block font-mono'']
          [Text (env_str e)]]"

text \<open>Lines 1148 to 1159: one block per step, \<^verbatim>\<open>data.steps.map((step, idx) => ...)\<close>.\<close>

definition step_block :: "nat \<Rightarrow> TestStep \<Rightarrow> node" where
  "step_block idx step =
     Elem ''div'' [(''key'', id_step step), cls ''mb-8'', avoid_break]
       [Elem ''div'' [cls ''step-title'']
          [Text etape, Text (show_nat (idx + 1)), Text (str '' : ''), Text (title step)],
        Elem ''div'' [cls ''ql-editor'', (''style.padding'', str ''0''), (''style.minHeight'', str ''auto'')]
          [InnerHTML (content step)]]"

fun step_blocks :: "nat \<Rightarrow> TestStep list \<Rightarrow> node list" where
  "step_blocks idx [] = []"
| "step_blocks idx (step # rest) = step_block idx step # step_blocks (idx + 1) rest"

text \<open>Lines 1161 to 1166: the conclusion banner.\<close>

definition conclusion_block :: "concl \<Rightarrow> node" where
  "conclusion_block c =
     Elem ''div'' [cls ''mt-12'', avoid_break]
       [Elem ''h2'' [cls h2_class] [Text (str ''Conclusion du Test'')],
        Elem ''div'' [cls (if c = OK then ''conclusion-ok'' else ''conclusion-ko'')]
          [Text (str ''BON POUR PROD ''), Text (concl_str c)]]"

text \<open>Lines 1122 to 1167: the content section.\<close>

definition pdf_content :: "AppData \<Rightarrow> jsstring \<Rightarrow> node" where
  "pdf_content data digits =
     Elem ''div'' [cls ''pdf-content'']
       ([Elem ''h2'' [cls h2_class] [Text (str ''D'' @ [0xE9] @ str ''tails Techniques'')],
         sql_block digits]
        @ image_block (localImage data)
        @ [env_block (environment data),
           Elem ''h2'' [cls ''text-xl font-bold mt-10 mb-4 border-b-2 border-red-900 text-red-900 pb-2'']
             [Text (str ''D'' @ [0xE9] @ str ''roulement des Tests'')]]
        @ step_blocks 0 (steps data)
        @ [conclusion_block (conclusion data)])"

definition spacer_row :: node where
  "spacer_row = Elem ''tr'' [] [Elem ''td'' [] [Elem ''div'' [(''style.height'', str ''15mm'')] []]]"

text \<open>\<^verbatim>\<open>function PrintContent({ data, jiraDigits })\<close>: a fragment of two nodes.\<close>

definition PrintContent :: "(jsstring \<Rightarrow> jsstring) \<Rightarrow> AppData \<Rightarrow> jsstring \<Rightarrow> node list" where
  "PrintContent fmtDate data digits =
     [cover_page fmtDate data,
      Elem ''table'' [cls ''w-full'']
        [Elem ''thead'' [] [spacer_row],
         Elem ''tbody'' [] [Elem ''tr'' [] [Elem ''td'' [] [pdf_content data digits]]],
         Elem ''tfoot'' [] [spacer_row]]]"

definition pdf_footer_fixed :: "AppData \<Rightarrow> node" where
  "pdf_footer_fixed data =
     Elem ''div'' [cls ''pdf-footer-fixed'']
       [Elem ''div'' [] [Text (jiraNumber data), Text (str '' / ''), Text (jiraName data)],
        Elem ''div'' [] [Text (str ''Cahier de recette'')]]"

text \<open>Lines 1050 to 1058: what the preview modal shows when it is open.\<close>

definition preview_pane :: "(jsstring \<Rightarrow> jsstring) \<Rightarrow> AppData \<Rightarrow> node" where
  "preview_pane fmtDate data =
     Elem ''div'' [cls ''flex-1 overflow-y-auto p-8 bg-slate-200/50'']
       [Elem ''div'' [cls ''print-container shadow-2xl relative'']
          (PrintContent fmtDate data (jiraDigits data) @ [pdf_footer_fixed data])]"

text \<open>Lines 1064 to 1072: the hidden template that the browser prints.\<close>

definition print_template :: "(jsstring \<Rightarrow> jsstring) \<Rightarrow> AppData \<Rightarrow> node" where
  "print_template fmtDate data =
     Elem ''div'' [cls ''hidden print:block'']
       [Elem ''div'' [(''ref'', str ''printTemplateRef''), cls ''print-container relative'']
          (PrintContent fmtDate data (jiraDigits data) @ [pdf_footer_fixed data])]"

text \<open>Observations on a tree: the elements of a given class, in document order.\<close>

fun by_class :: "jsstring \<Rightarrow> node \<Rightarrow> node list" where
  "by_class c (Elem tag attrs kids) =
     (if map_of attrs ''className'' = Some c then [Elem tag attrs kids] else [])
     @ concat (map (by_class c) kids)"
| "by_class c (Text t) = []"
| "by_class c (InnerHTML h) = []"

text \<open>The text an element holds directly: its text children, concatenated.\<close>

fun text_of :: "node \<Rightarrow> jsstring" where
  "text_of (Text t) = t"
| "text_of (Elem tag attrs kids) = []"
| "text_of (InnerHTML h) = []"

definition child_text :: "node \<Rightarrow> jsstring" where
  "child_text n = (case n of Elem tag attrs kids \<Rightarrow> concat (map text_of kids) | _ \<Rightarrow> [])"

text \<open>The children of the framing element inside an outer wrapper.\<close>

definition container_children :: "node \<Rightarrow> node list" where
  "container_children n =
     (case n of Elem t a [Elem t' a' kids] \<Rightarrow> kids | _ \<Rightarrow> [])"

section \<open>The editing surface\<close>

text \<open>
  \<^verbatim>\<open>quillRef.current.root.innerHTML\<close> is the buffer of the surface. The model
  keeps the buffer and counts the assignments made to it. \<^verbatim>\<open>quillRef.current\<close> is
  \<open>None\<close> until the editor is created.
\<close>

record surface =
  innerHTML :: jsstring
  writes :: nat

definition assign_innerHTML :: "jsstring \<Rightarrow> surface \<Rightarrow> surface" where
  "assign_innerHTML v q = q\<lparr>innerHTML := v, writes := writes q + 1\<rparr>"

text \<open>The fragment \<^verbatim>\<open><p><br></p>\<close> the editor holds when it is empty.\<close>

definition placeholder :: jsstring where
  "placeholder = str ''<p><br></p>''"

text \<open>
  The first effect of \<^verbatim>\<open>RichTextEditor\<close> (lines 618 to 654), run once after mount.
  \<open>mounted\<close> is \<^verbatim>\<open>editorRef.current\<close> being set and \<open>fresh\<close> the surface that
  \<^verbatim>\<open>new Quill(...)\<close> creates. The branches are in the order of the source.
\<close>

definition mount_effect :: "bool \<Rightarrow> surface \<Rightarrow> jsstring \<Rightarrow> surface option \<Rightarrow> surface option" where
  "mount_effect mounted fresh v quillRef =
     (let quillRef' = (if mounted \<and> quillRef = None then Some fresh else quillRef) in
      case quillRef' of
        None \<Rightarrow> None
      | Some q \<Rightarrow>
          if innerHTML q \<noteq> v then
            (if v = [] then Some (assign_innerHTML [] q)
             else if innerHTML q = placeholder \<and> v = [] then Some q
             else if innerHTML q \<noteq> v then Some q
             else Some q)
          else Some q)"

text \<open>
  The second effect (lines 657 to 661), run when \<^verbatim>\<open>value\<close> changes:
  \<^verbatim>\<open>if (quillRef.current && value !== quillRef.current.root.innerHTML)
    quillRef.current.root.innerHTML = value;\<close>
\<close>

definition value_effect :: "jsstring \<Rightarrow> surface option \<Rightarrow> surface option" where
  "value_effect v quillRef =
     (case quillRef of
        None \<Rightarrow> None
      | Some q \<Rightarrow> if v \<noteq> innerHTML q then Some (assign_innerHTML v q) else Some q)"

section \<open>Handlers and their effects\<close>

text \<open>
  What a handler does besides updating the state: a dialog, a call of the print
  backend, a timer that will run the PDF backend, a download, an uncaught exception.
\<close>

datatype effect =
    Alert jsstring
  | WindowPrint
  | SetTimeout_html2pdf nat jsstring
  | Download jsstring jsstring
  | Uncaught_SyntaxError

text \<open>The state of the second revision of \<^verbatim>\<open>App\<close>, for any type of the stored
  data.\<close>

record 'd app_state =
  data :: 'd
  isPreviewOpen :: bool
  copied :: bool

text \<open>The state of the first revision.\<close>

record 'd app_state_v1 =
  data_v1 :: 'd
  isGenerating :: bool

definition fill_in_message :: jsstring where
  "fill_in_message =
     str ''Veuillez remplir au moins le num'' @ [0xE9] @ str ''ro et le nom de la JIRA.''"

text \<open>
  \<^verbatim>\<open>const handlePrint = () => { if (!data.jiraNumber || !data.jiraName) { alert(...);
  return; } window.print(); };\<close>
\<close>

definition handlePrint :: "AppData app_state \<Rightarrow> AppData app_state \<times> effect list" where
  "handlePrint st =
     (if jiraNumber (data st) = [] \<or> jiraName (data st) = [] then (st, [Alert fill_in_message])
      else (st, [WindowPrint]))"

text \<open>
  \<^verbatim>\<open>generatePDF\<close> of the first revision: the same guard, then
  \<^verbatim>\<open>setIsGenerating(true)\<close> and a timer of 500 ms whose callback saves
  \<^verbatim>\<open>`Cahier_Tests_${data.jiraNumber}.pdf`\<close>.
\<close>

definition generatePDF :: "AppData app_state_v1 \<Rightarrow> AppData app_state_v1 \<times> effect list" where
  "generatePDF st =
     (if jiraNumber (data_v1 st) = [] \<or> jiraName (data_v1 st) = [] then (st, [Alert fill_in_message])
      else (st\<lparr>isGenerating := True\<rparr>,
            [SetTimeout_html2pdf 500 (str ''Cahier_Tests_'' @ jiraNumber (data_v1 st) @ str ''.pdf'')]))"

text \<open>
  The handlers of the step list: the click handler hands the updater to
  \<^verbatim>\<open>setData\<close> and does nothing else.
\<close>

definition updateStep_handler ::
  "jsstring \<Rightarrow> StepUpdates \<Rightarrow> AppData app_state \<Rightarrow> AppData app_state \<times> effect list" where
  "updateStep_handler i updates st = (st\<lparr>data := updateStep i updates (data st)\<rparr>, [])"

section \<open>JSON values and their text\<close>

text \<open>
  The types of TypeScript are erased when the program runs: what \<^verbatim>\<open>JSON.parse\<close>
  returns is stored as it is. A value is \<^verbatim>\<open>null\<close>, a boolean, a number, a string,
  an array, or an object, whose properties are kept in their order of enumeration
  (the order of creation, for keys that are not array indices, as all keys of a
  document are). A number is kept as the text that denotes it: its floating-point value
  plays no part in what follows.
\<close>

datatype json =
    JNull
  | JBool bool
  | JNum jsstring
  | JStr jsstring
  | JArr "json list"
  | JObj "(jsstring \<times> json) list"

subsection \<open>\<^verbatim>\<open>JSON.stringify(value, null, 2)\<close>\<close>

text \<open>
  \<^verbatim>\<open>QuoteJSONString\<close> of ECMA-262: the short escapes, \<^verbatim>\<open>\uXXXX\<close> in lower-case
  hexadecimal for the other control characters and for a surrogate that is not part of
  a pair, every other code unit as it is.
\<close>

definition hexdigit :: "nat \<Rightarrow> jschar" where
  "hexdigit k = (if k < 10 then 0x30 + of_nat k else 0x61 + of_nat (k - 10))"

definition u_escape :: "jschar \<Rightarrow> jsstring" where
  "u_escape c =
     [0x5C, 0x75, hexdigit (unat c div 4096), hexdigit (unat c div 256 mod 16),
      hexdigit (unat c div 16 mod 16), hexdigit (unat c mod 16)]"

definition is_high :: "jschar \<Rightarrow> bool" where
  "is_high c = (0xD800 \<le> c \<and> c \<le> 0xDBFF)"

definition is_low :: "jschar \<Rightarrow> bool" where
  "is_low c = (0xDC00 \<le> c \<and> c \<le> 0xDFFF)"

definition quote_unit :: "jschar \<Rightarrow> jsstring" where
  "quote_unit c =
     (if c = 0x08 then [0x5C, 0x62]
      else if c = 0x09 then [0x5C, 0x74]
      else if c = 0x0A then [0x5C, 0x6E]
      else if c = 0x0C then [0x5C, 0x66]
      else if c = 0x0D then [0x5C, 0x72]
      else if c = 0x22 then [0x5C, 0x22]
      else if c = 0x5C then [0x5C, 0x5C]
      else if c < 0x20 \<or> is_high c \<or> is_low c then u_escape c
      else [c])"

fun quote_units :: "jsstring \<Rightarrow> jsstring" where
  "quote_units [] = []"
| "quote_units [c] = quote_unit c"
| "quote_units (c # d # ds) =
     (if is_high c \<and> is_low d then c # d # quote_units ds
      else quote_unit c @ quote_units (d # ds))"

definition QuoteJSONString :: "jsstring \<Rightarrow> jsstring" where
  "QuoteJSONString s = [0x22] @ quote_units s @ [0x22]"

definition spaces :: "nat \<Rightarrow> jsstring" where
  "spaces n = replicate n 0x20"

text \<open>
  \<^verbatim>\<open>SerializeJSONProperty\<close>, \<^verbatim>\<open>SerializeJSONArray\<close> and
  \<^verbatim>\<open>SerializeJSONObject\<close> with a gap of two spaces; \<open>ind\<close> is the indentation of the
  enclosing line. An empty array is \<^verbatim>\<open>[]\<close> and an empty object \<^verbatim>\<open>{}\<close>; the items of
  the others stand one per line, two spaces deeper, separated by a comma.
\<close>

fun stringify :: "nat \<Rightarrow> json \<Rightarrow> jsstring"
  and stringify_elems :: "nat \<Rightarrow> json list \<Rightarrow> jsstring"
  and stringify_props :: "nat \<Rightarrow> (jsstring \<times> json) list \<Rightarrow> jsstring" where
  "stringify ind JNull = str ''null''"
| "stringify ind (JBool b) = (if b then str ''true'' else str ''false'')"
| "stringify ind (JNum n) = n"
| "stringify ind (JStr s) = QuoteJSONString s"
| "stringify ind (JArr []) = str ''[]''"
| "stringify ind (JArr (x # xs)) =
     [0x5B, 0x0A] @ spaces (ind + 2) @ stringify_elems (ind + 2) (x # xs) @ [0x0A] @ spaces ind @ [0x5D]"
| "stringify ind (JObj []) = str ''{}''"
| "stringify ind (JObj (p # ps)) =
     [0x7B, 0x0A] @ spaces (ind + 2) @ stringify_props (ind + 2) (p # ps) @ [0x0A] @ spaces ind @ [0x7D]"
| "stringify_elems ind [] = []"
| "stringify_elems ind [x] = stringify ind x"
| "stringify_elems ind (x # y # ys) =
     stringify ind x @ [0x2C, 0x0A] @ spaces ind @ stringify_elems ind (y # ys)"
| "stringify_props ind [] = []"
| "stringify_props ind [(k, v)] = QuoteJSONString k @ [0x3A, 0x20] @ stringify ind v"
| "stringify_props ind ((k, v) # q # qs) =
     QuoteJSONString k @ [0x3A, 0x20] @ stringify ind v @ [0x2C, 0x0A] @ spaces ind
     @ stringify_props ind (q # qs)"

definition JSON_stringify :: "json \<Rightarrow> jsstring" where
  "JSON_stringify v = stringify 0 v"

subsection \<open>\<^verbatim>\<open>JSON.parse(text)\<close>\<close>

text \<open>
  The grammar of ECMA-404. White space is space, tab, line feed and carriage return.
  \<open>None\<close> is the \<^verbatim>\<open>SyntaxError\<close> that \<^verbatim>\<open>JSON.parse\<close> throws.
\<close>

definition is_ws :: "jschar \<Rightarrow> bool" where
  "is_ws c = (c = 0x20 \<or> c = 0x09 \<or> c = 0x0A \<or> c = 0x0D)"

definition skip_ws :: "jsstring \<Rightarrow> jsstring" where
  "skip_ws s = dropWhile is_ws s"

definition hexval :: "jschar \<Rightarrow> nat option" where
  "hexval c =
     (if 0x30 \<le> c \<and> c \<le> 0x39 then Some (unat c - 0x30)
      else if 0x61 \<le> c \<and> c \<le> 0x66 then Some (unat c - 0x61 + 10)
      else if 0x41 \<le> c \<and> c \<le> 0x46 then Some (unat c - 0x41 + 10)
      else None)"

definition hex4 :: "jschar \<Rightarrow> jschar \<Rightarrow> jschar \<Rightarrow> jschar \<Rightarrow> jschar option" where
  "hex4 a b c d =
     (case (hexval a, hexval b, hexval c, hexval d) of
        (Some x, Some y, Some z, Some w) \<Rightarrow> Some (of_nat (((x * 16 + y) * 16 + z) * 16 + w))
      | _ \<Rightarrow> None)"

definition unescape :: "jschar \<Rightarrow> jschar option" where
  "unescape e =
     (if e = 0x22 then Some 0x22
      else if e = 0x5C then Some 0x5C
      else if e = 0x2F then Some 0x2F
      else if e = 0x62 then Some 0x08
      else if e = 0x66 then Some 0x0C
      else if e = 0x6E then Some 0x0A
      else if e = 0x72 then Some 0x0D
      else if e = 0x74 then Some 0x09
      else None)"

definition cons_unit :: "jschar \<Rightarrow> (jsstring \<times> jsstring) option \<Rightarrow> (jsstring \<times> jsstring) option" where
  "cons_unit c r = (case r of None \<Rightarrow> None | Some (s, rest) \<Rightarrow> Some (c # s, rest))"

text \<open>The characters of a string after its opening quote, up to the closing quote:
  the string read and the text that follows it.\<close>

fun parse_chars :: "jsstring \<Rightarrow> (jsstring \<times> jsstring) option" where
  "parse_chars [] = None"
| "parse_chars (c # cs) =
     (if c = 0x22 then Some ([], cs)
      else if c = 0x5C then
        (case cs of
           [] \<Rightarrow> None
         | e # r \<Rightarrow>
             if e = 0x75 then
               (case r of
                  h1 # h2 # h3 # h4 # r' \<Rightarrow>
                    (case hex4 h1 h2 h3 h4 of
                       None \<Rightarrow> None
                     | Some u \<Rightarrow> cons_unit u (parse_chars r'))
                | _ \<Rightarrow> None)
             else
               (case unescape e of
                  None \<Rightarrow> None
                | Some u \<Rightarrow> cons_unit u (parse_chars r)))
      else if c < 0x20 then None
      else cons_unit c (parse_chars cs))"

text \<open>A number: an optional minus sign, an integer part with no leading zero, an
  optional fraction, an optional exponent.\<close>

definition digits1 :: "jsstring \<Rightarrow> (jsstring \<times> jsstring) option" where
  "digits1 s =
     (if takeWhile isDigit s = [] then None else Some (takeWhile isDigit s, dropWhile isDigit s))"

definition parse_int :: "jsstring \<Rightarrow> (jsstring \<times> jsstring) option" where
  "parse_int s =
     (case s of
        [] \<Rightarrow> None
      | c # cs \<Rightarrow> if c = 0x30 then Some ([c], cs) else digits1 s)"

definition parse_frac :: "jsstring \<Rightarrow> (jsstring \<times> jsstring) option" where
  "parse_frac s =
     (case s of
        c # cs \<Rightarrow>
          if c = 0x2E then (case digits1 cs of None \<Rightarrow> None | Some (ds, r) \<Rightarrow> Some (c # ds, r))
          else Some ([], s)
      | [] \<Rightarrow> Some ([], s))"

definition parse_exp :: "jsstring \<Rightarrow> (jsstring \<times> jsstring) option" where
  "parse_exp s =
     (case s of
        c # cs \<Rightarrow>
          if c = 0x65 \<or> c = 0x45 then
            (case cs of
               g # gs \<Rightarrow>
                 if g = 0x2B \<or> g = 0x2D then
                   (case digits1 gs of None \<Rightarrow> None | Some (ds, r) \<Rightarrow> Some (c # g # ds, r))
                 else (case digits1 cs of None \<Rightarrow> None | Some (ds, r) \<Rightarrow> Some (c # ds, r))
             | [] \<Rightarrow> None)
          else Some ([], s)
      | [] \<Rightarrow> Some ([], s))"

definition parse_number :: "jsstring \<Rightarrow> (jsstring \<times> jsstring) option" where
  "parse_number s =
     (let (sign, s1) = (case s of c # cs \<Rightarrow> if c = 0x2D then ([c], cs) else ([], s) | [] \<Rightarrow> ([], s)) in
      case parse_int s1 of
        None \<Rightarrow> None
      | Some (i, s2) \<Rightarrow>
          (case parse_frac s2 of
             None \<Rightarrow> None
           | Some (f, s3) \<Rightarrow>
               (case parse_exp s3 of
                  None \<Rightarrow> None
                | Some (e, s4) \<Rightarrow> Some (sign @ i @ f @ e, s4))))"

definition literal :: "string \<Rightarrow> json \<Rightarrow> jsstring \<Rightarrow> (json \<times> jsstring) option" where
  "literal word v s =
     (if take (length word) s = str word then Some (v, drop (length word) s) else None)"

text \<open>\<^verbatim>\<open>CreateDataProperty\<close> on the object under construction: a key that comes again
  keeps its place and takes the later value.\<close>

fun set_prop :: "jsstring \<Rightarrow> json \<Rightarrow> (jsstring \<times> json) list \<Rightarrow> (jsstring \<times> json) list" where
  "set_prop k v [] = [(k, v)]"
| "set_prop k v ((k', v') # ps) = (if k' = k then (k, v) # ps else (k', v') # set_prop k v ps)"

definition props_of :: "(jsstring \<times> json) list \<Rightarrow> (jsstring \<times> json) list" where
  "props_of kvs = foldl (\<lambda>ps (k, v). set_prop k v ps) [] kvs"

text \<open>What the string reader and the skipping of white space leave is never longer
  than what they were given: the recursion of the parser rests on it.\<close>

lemma cons_unit_Some: "cons_unit c r = Some (s, rest) \<Longrightarrow> \<exists>s'. r = Some (s', rest) \<and> s = c # s'"
  by (auto simp add: cons_unit_def split: option.splits)

lemma parse_chars_shorter: "parse_chars s = Some (k, r) \<Longrightarrow> length r < length s"
proof (induction s arbitrary: k rule: parse_chars.induct)
  case 1
  then show ?case by simp
next
  case (2 c cs)
  show ?case
  proof (cases "c = 0x22")
    case True
    with "2.prems" show ?thesis by auto
  next
    case nq: False
    show ?thesis
    proof (cases "c = 0x5C")
      case bs: True
      show ?thesis
      proof (cases cs)
        case Nil
        with "2.prems" nq bs show ?thesis by simp
      next
        case (Cons e r0)
        show ?thesis
        proof (cases "e = 0x75")
          case u: True
          with "2.prems" nq bs Cons obtain h1 h2 h3 h4 r' u' where
            r0: "r0 = h1 # h2 # h3 # h4 # r'" and hx: "hex4 h1 h2 h3 h4 = Some u'"
            and cu: "cons_unit u' (parse_chars r') = Some (k, r)"
            by (auto split: list.splits option.splits)
          from cu obtain k' where pc: "parse_chars r' = Some (k', r)" by (auto dest: cons_unit_Some)
          have "length r < length r'" using "2.IH"(1) nq bs Cons u r0 hx pc by auto
          then show ?thesis using Cons r0 by simp
        next
          case nu: False
          with "2.prems" nq bs Cons obtain u' where ue: "unescape e = Some u'"
            and cu: "cons_unit u' (parse_chars r0) = Some (k, r)"
            by (auto split: option.splits)
          from cu obtain k' where pc: "parse_chars r0 = Some (k', r)" by (auto dest: cons_unit_Some)
          have "length r < length r0" using "2.IH"(2) nq bs Cons nu ue pc by auto
          then show ?thesis using Cons by simp
        qed
      qed
    next
      case nbs: False
      with "2.prems" nq have ge: "\<not> c < 0x20" and cu: "cons_unit c (parse_chars cs) = Some (k, r)"
        by (auto split: if_splits)
      from cu obtain k' where pc: "parse_chars cs = Some (k', r)" by (auto dest: cons_unit_Some)
      have "length r < length cs" using "2.IH"(3) nq nbs ge pc by auto
      then show ?thesis by simp
    qed
  qed
qed

lemma length_skip_ws: "length (skip_ws s) \<le> length s"
  by (simp add: skip_ws_def length_dropWhile_le)

lemma skip_ws_Cons_length: "skip_ws s = d # r \<Longrightarrow> length r < length s"
  using length_skip_ws [of s] by simp

text \<open>
  A value, the elements of an array after its opening bracket, and the members of an
  object after its opening brace, each with the text that follows. The elements and
  the members go on only when the value before them has consumed some text, which a
  value always does.
\<close>

function parse_value :: "jsstring \<Rightarrow> (json \<times> jsstring) option"
  and parse_elements :: "jsstring \<Rightarrow> (json list \<times> jsstring) option"
  and parse_members :: "jsstring \<Rightarrow> ((jsstring \<times> json) list \<times> jsstring) option" where
  "parse_value [] = None"
| "parse_value (c # cs) =
     (if c = 0x7B then
        (case skip_ws cs of
           [] \<Rightarrow> None
         | d # r \<Rightarrow>
             if d = 0x7D then Some (JObj [], r)
             else (case parse_members (d # r) of
                     None \<Rightarrow> None
                   | Some (kvs, r') \<Rightarrow> Some (JObj (props_of kvs), r')))
      else if c = 0x5B then
        (case skip_ws cs of
           [] \<Rightarrow> None
         | d # r \<Rightarrow>
             if d = 0x5D then Some (JArr [], r)
             else (case parse_elements (d # r) of
                     None \<Rightarrow> None
                   | Some (vs, r') \<Rightarrow> Some (JArr vs, r')))
      else if c = 0x22 then
        (case parse_chars cs of None \<Rightarrow> None | Some (s, r) \<Rightarrow> Some (JStr s, r))
      else if c = 0x74 then literal ''true'' (JBool True) (c # cs)
      else if c = 0x66 then literal ''false'' (JBool False) (c # cs)
      else if c = 0x6E then literal ''null'' JNull (c # cs)
      else (case parse_number (c # cs) of None \<Rightarrow> None | Some (n, r) \<Rightarrow> Some (JNum n, r)))"
| "parse_elements s =
     (case parse_value s of
        None \<Rightarrow> None
      | Some (v, r) \<Rightarrow>
          if length r < length s then
            (case skip_ws r of
               [] \<Rightarrow> None
             | d # r' \<Rightarrow>
                 if d = 0x2C then
                   (case parse_elements (skip_ws r') of
                      None \<Rightarrow> None
                    | Some (vs, r'') \<Rightarrow> Some (v # vs, r''))
                 else if d = 0x5D then Some ([v], r')
                 else None)
          else None)"
| "parse_members s =
     (case s of
        [] \<Rightarrow> None
      | q # s1 \<Rightarrow>
          if q = 0x22 then
            (case parse_chars s1 of
               None \<Rightarrow> None
             | Some (k, s2) \<Rightarrow>
                 (case skip_ws s2 of
                    [] \<Rightarrow> None
                  | col # s3 \<Rightarrow>
                      if col = 0x3A then
                        (case parse_value (skip_ws s3) of
                           None \<Rightarrow> None
                         | Some (v, r) \<Rightarrow>
                             if length r < length s then
                               (case skip_ws r of
                                  [] \<Rightarrow> None
                                | d # r' \<Rightarrow>
                                    if d = 0x2C then
                                      (case parse_members (skip_ws r') of
                                         None \<Rightarrow> None
                                       | Some (kvs, r'') \<Rightarrow> Some ((k, v) # kvs, r''))
                                    else if d = 0x7D then Some ([(k, v)], r')
                                    else None)
                             else None)
                      else None))
          else None)"
  by pat_completeness auto

termination
proof (relation "measure (\<lambda>x. case x of
          Inl s \<Rightarrow> 2 * length s
        | Inr (Inl s) \<Rightarrow> 2 * length s + 1
        | Inr (Inr s) \<Rightarrow> 2 * length s + 1)", goal_cases)
  case 1
  then show ?case by simp
next
  case (2 c cs d r)
  then show ?case using skip_ws_Cons_length [of cs d r] by simp
next
  case (3 c cs d r)
  then show ?case using skip_ws_Cons_length [of cs d r] by simp
next
  case (4 s)
  then show ?case by simp
next
  case (5 s x v r d r')
  then show ?case
    using skip_ws_Cons_length [of r d r'] length_skip_ws [of r'] by simp
next
  case (6 s q s1 x k s2 col s3)
  then show ?case
    using parse_chars_shorter [of s1 k s2] skip_ws_Cons_length [of s2 col s3]
      length_skip_ws [of s3] by simp
next
  case (7 s q s1 x k s2 col s3 y v r d r')
  then show ?case
    using skip_ws_Cons_length [of r d r'] length_skip_ws [of r'] by simp
qed

declare parse_value.simps [simp del] parse_elements.simps [simp del] parse_members.simps [simp del]

text \<open>The whole text is one value, with white space around it at most.\<close>

definition JSON_parse :: "jsstring \<Rightarrow> json option" where
  "JSON_parse text =
     (case parse_value (skip_ws text) of
        None \<Rightarrow> None
      | Some (v, r) \<Rightarrow> if skip_ws r = [] then Some v else None)"

section \<open>Export and restore\<close>

text \<open>
  The object that holds a document when the program runs, with the properties in the
  order of \<^verbatim>\<open>INITIAL_DATA\<close>, which every spread of the handlers keeps.
\<close>

definition step_json :: "TestStep \<Rightarrow> json" where
  "step_json step =
     JObj [(str ''id'', JStr (id_step step)), (str ''title'', JStr (title step)),
           (str ''content'', JStr (content step))]"

definition toJson :: "AppData \<Rightarrow> json" where
  "toJson d =
     JObj [(str ''jiraNumber'', JStr (jiraNumber d)),
           (str ''jiraName'', JStr (jiraName d)),
           (str ''type'', JStr (type_str (type_field d))),
           (str ''date'', JStr (date d)),
           (str ''environment'', JStr (env_str (environment d))),
           (str ''conclusion'', JStr (concl_str (conclusion d))),
           (str ''localImage'', (case localImage d of None \<Rightarrow> JNull | Some img \<Rightarrow> JStr img)),
           (str ''steps'', JArr (map step_json (steps d)))]"

definition runtime :: "AppData app_state \<Rightarrow> json app_state" where
  "runtime st = \<lparr>data = toJson (data st), isPreviewOpen = isPreviewOpen st, copied = copied st\<rparr>"

text \<open>
  \<^verbatim>\<open>downloadJSON\<close>: a download named after the number, or \<^verbatim>\<open>export\<close>, whose content
  is \<^verbatim>\<open>JSON.stringify(data, null, 2)\<close>.
\<close>

definition downloadJSON :: "AppData app_state \<Rightarrow> AppData app_state \<times> effect list" where
  "downloadJSON st =
     (st, [Download (str ''cahier-recette-'' @ js_or (jiraNumber (data st)) (str ''export'') @ str ''.json'')
             (JSON_stringify (toJson (data st)))])"

text \<open>
  What \<^verbatim>\<open>reader.readAsText(file)\<close> yields for a file that holds the bytes of
  \<^verbatim>\<open>new Blob([s])\<close>. The Blob encodes the string in UTF-8, where a surrogate that is
  not part of a pair becomes U+FFFD; the reader decodes UTF-8 and drops a leading byte
  order mark.
\<close>

fun toWellFormed :: "jsstring \<Rightarrow> jsstring" where
  "toWellFormed [] = []"
| "toWellFormed [c] = (if is_high c \<or> is_low c then [0xFFFD] else [c])"
| "toWellFormed (c # d # ds) =
     (if is_high c \<and> is_low d then c # d # toWellFormed ds
      else (if is_high c \<or> is_low c then 0xFFFD else c) # toWellFormed (d # ds))"

definition strip_bom :: "jsstring \<Rightarrow> jsstring" where
  "strip_bom s = (case s of [] \<Rightarrow> [] | c # cs \<Rightarrow> if c = 0xFEFF then cs else s)"

definition blob_text :: "jsstring \<Rightarrow> jsstring" where
  "blob_text s = strip_bom (toWellFormed s)"

text \<open>\<^verbatim>\<open>json && typeof json === 'object'\<close>: objects and arrays; \<^verbatim>\<open>null\<close> is falsy.\<close>

fun is_object :: "json \<Rightarrow> bool" where
  "is_object (JObj ps) = True"
| "is_object (JArr xs) = True"
| "is_object v = False"

definition restored_message :: jsstring where
  "restored_message =
     str ''Donn'' @ [0xE9] @ str ''es restaur'' @ [0xE9] @ str ''es avec succ'' @ [0xE8] @ str ''s !''"

definition read_error_message :: jsstring where
  "read_error_message =
     str ''Erreur lors de la lecture du fichier de sauvegarde. Assurez-vous qu'' @ [0x27]
     @ str ''il s'' @ [0x27] @ str ''agit d'' @ [0x27] @ str ''un fichier JSON valide.''"

text \<open>
  \<^verbatim>\<open>handleFileUpload\<close>, with the text the reader hands to \<^verbatim>\<open>onload\<close>, or \<open>None\<close>
  when no file was chosen:
  \<^verbatim>\<open>try { const json = JSON.parse(text);
    if (json && typeof json === 'object') { setData(json); alert(...); } }
  catch (error) { alert(...); }\<close>
  The value is stored as parsed; no property of it is looked at.
\<close>

definition handleFileUpload :: "jsstring option \<Rightarrow> json app_state \<Rightarrow> json app_state \<times> effect list" where
  "handleFileUpload file st =
     (case file of
        None \<Rightarrow> (st, [])
      | Some text \<Rightarrow>
          (case JSON_parse text of
             None \<Rightarrow> (st, [Alert read_error_message])
           | Some json \<Rightarrow>
               if is_object json then (st\<lparr>data := json\<rparr>, [Alert restored_message])
               else (st, [])))"

text \<open>
  \<^verbatim>\<open>restoreFromLocalStorage\<close> of the first revision, with what
  \<^verbatim>\<open>localStorage.getItem\<close> returns:
  \<^verbatim>\<open>if (saved) { setData(JSON.parse(saved)); alert(...); } else { alert(...); }\<close>
  There is no \<^verbatim>\<open>try\<close>: a text that does not parse ends the handler with the
  exception, before \<^verbatim>\<open>setData\<close>.
\<close>

definition restored_message_v1 :: jsstring where
  "restored_message_v1 = str ''Donn'' @ [0xE9] @ str ''es restaur'' @ [0xE9] @ str ''es !''"

definition nothing_saved_message :: jsstring where
  "nothing_saved_message = str ''Aucune sauvegarde trouv'' @ [0xE9] @ str ''e.''"

definition restoreFromLocalStorage ::
  "jsstring option \<Rightarrow> json app_state_v1 \<Rightarrow> json app_state_v1 \<times> effect list" where
  "restoreFromLocalStorage saved st =
     (case saved of
        None \<Rightarrow> (st, [Alert nothing_saved_message])
      | Some text \<Rightarrow>
          if text = [] then (st, [Alert nothing_saved_message])
          else (case JSON_parse text of
                  None \<Rightarrow> (st, [Uncaught_SyntaxError])
                | Some json \<Rightarrow> (st\<lparr>data_v1 := json\<rparr>, [Alert restored_message_v1])))"

text \<open>
  The document that a stored value stands for: the properties that the components read
  (\<^verbatim>\<open>data.jiraNumber\<close>, \<^verbatim>\<open>data.steps.map(step => ... step.id ...)\<close>), each with the
  type that \<^verbatim>\<open>interface AppData\<close> gives it. \<open>get_prop\<close> is the access to a property,
  \<open>None\<close> for \<^verbatim>\<open>undefined\<close>; \<open>document_of\<close> is \<open>None\<close> when a property is missing
  or of another type.
\<close>

definition get_prop :: "jsstring \<Rightarrow> json \<Rightarrow> json option" where
  "get_prop k v = (case v of JObj ps \<Rightarrow> map_of ps k | _ \<Rightarrow> None)"

fun string_of :: "json option \<Rightarrow> jsstring option" where
  "string_of (Some (JStr s)) = Some s"
| "string_of v = None"

definition type_of_str :: "jsstring \<Rightarrow> record_type option" where
  "type_of_str s = (if s = str ''TMD'' then Some TMD else if s = str ''TMA'' then Some TMA else None)"

definition env_of_str :: "jsstring \<Rightarrow> env option" where
  "env_of_str s =
     (if s = str ''FRECMCOR'' then Some FRECMCOR else if s = str ''FPOST'' then Some FPOST else None)"

definition concl_of_str :: "jsstring \<Rightarrow> concl option" where
  "concl_of_str s = (if s = str ''OK'' then Some OK else if s = str ''KO'' then Some KO else None)"

fun image_of :: "json option \<Rightarrow> jsstring option option" where
  "image_of (Some JNull) = Some None"
| "image_of (Some (JStr s)) = Some (Some s)"
| "image_of v = None"

definition step_of :: "json \<Rightarrow> TestStep option" where
  "step_of v =
     Option.bind (string_of (get_prop (str ''id'') v)) (\<lambda>i.
     Option.bind (string_of (get_prop (str ''title'') v)) (\<lambda>t.
     Option.bind (string_of (get_prop (str ''content'') v)) (\<lambda>c.
       Some \<lparr>id_step = i, title = t, content = c\<rparr>)))"

fun steps_of :: "json list \<Rightarrow> TestStep list option" where
  "steps_of [] = Some []"
| "steps_of (v # vs) =
     Option.bind (step_of v) (\<lambda>s. Option.bind (steps_of vs) (\<lambda>ss. Some (s # ss)))"

definition document_of :: "json \<Rightarrow> AppData option" where
  "document_of v =
     Option.bind (string_of (get_prop (str ''jiraNumber'') v)) (\<lambda>number.
     Option.bind (string_of (get_prop (str ''jiraName'') v)) (\<lambda>name.
     Option.bind (Option.bind (string_of (get_prop (str ''type'') v)) type_of_str) (\<lambda>ty.
     Option.bind (string_of (get_prop (str ''date'') v)) (\<lambda>da.
     Option.bind (Option.bind (string_of (get_prop (str ''environment'') v)) env_of_str) (\<lambda>en.
     Option.bind (Option.bind (string_of (get_prop (str ''conclusion'') v)) concl_of_str) (\<lambda>co.
     Option.bind (image_of (get_prop (str ''localImage'') v)) (\<lambda>im.
     Option.bind (case get_prop (str ''steps'') v of Some (JArr vs) \<Rightarrow> steps_of vs | _ \<Rightarrow> None) (\<lambda>ss.
       Some \<lparr>jiraNumber = number, jiraName = name, type_field = ty, date = da,
             environment = en, conclusion = co, localImage = im, steps = ss\<rparr>))))))))"

text \<open>The content of the download that \<open>downloadJSON\<close> offers.\<close>

definition exported_text :: "AppData app_state \<Rightarrow> jsstring" where
  "exported_text st =
     concat (map (\<lambda>e. case e of Download name text \<Rightarrow> text | _ \<Rightarrow> []) (snd (downloadJSON st)))"

section \<open>Predicates of the statements\<close>

text \<open>A value with no number in it, whose objects have each key once: what the
  program stores for a document.\<close>

fun plain :: "json \<Rightarrow> bool"
  and plain_list :: "json list \<Rightarrow> bool"
  and plain_props :: "(jsstring \<times> json) list \<Rightarrow> bool" where
  "plain JNull = True"
| "plain (JBool b) = True"
| "plain (JNum n) = False"
| "plain (JStr s) = True"
| "plain (JArr xs) = plain_list xs"
| "plain (JObj ps) = (distinct (map fst ps) \<and> plain_props ps)"
| "plain_list [] = True"
| "plain_list (x # xs) = (plain x \<and> plain_list xs)"
| "plain_props [] = True"
| "plain_props ((k, v) # ps) = (plain v \<and> plain_props ps)"

text \<open>The first character of a serialized value that is not a number.\<close>

definition opens_value :: "jschar \<Rightarrow> bool" where
  "opens_value c = (c = 0x6E \<or> c = 0x74 \<or> c = 0x66 \<or> c = 0x22 \<or> c = 0x5B \<or> c = 0x7B)"

text \<open>A string in which every surrogate is part of a pair, and a string of ASCII.\<close>

definition well_formed :: "jsstring \<Rightarrow> bool" where
  "well_formed s = (toWellFormed s = s)"

definition ascii :: "jsstring \<Rightarrow> bool" where
  "ascii s = list_all (\<lambda>c. c < 0x80) s"

section \<open>Example values\<close>

text \<open>A document as the application creates it, and a surface that holds the
  placeholder of an empty editor.\<close>

definition doc0 :: AppData where
  "doc0 = INITIAL_DATA (str ''2024-01-15'') (str ''id-1'')"

definition state0 :: "AppData app_state" where
  "state0 = \<lparr>data = doc0, isPreviewOpen = False, copied = False\<rparr>"

definition empty_surface :: surface where
  "empty_surface = \<lparr>innerHTML = placeholder, writes = 0\<rparr>"

text \<open>A filled document and the text that \<^verbatim>\<open>JSON.stringify(data, null, 2)\<close> gives
  for it, written out line by line.\<close>

definition doc1 :: AppData where
  "doc1 =
     \<lparr>jiraNumber = str ''ERP-1234'', jiraName = str ''Paie'', type_field = TMA,
      date = str ''2024-01-15'', environment = FPOST, conclusion = KO, localImage = None,
      steps = [\<lparr>id_step = str ''id-1'', title = etape @ str ''1'',
                content = str ''<p>'' @ [0x22] @ str ''ok'' @ [0x22] @ str ''</p>''\<rparr>]\<rparr>"

definition quoted :: "string \<Rightarrow> jsstring" where
  "quoted s = 0x22 # str s @ [0x22]"

definition doc1_text :: jsstring where
  "doc1_text = concat
     [str ''{'', [0x0A],
      str ''  '', quoted ''jiraNumber'', str '': '', quoted ''ERP-1234'', str '','', [0x0A],
      str ''  '', quoted ''jiraName'', str '': '', quoted ''Paie'', str '','', [0x0A],
      str ''  '', quoted ''type'', str '': '', quoted ''TMA'', str '','', [0x0A],
      str ''  '', quoted ''date'', str '': '', quoted ''2024-01-15'', str '','', [0x0A],
      str ''  '', quoted ''environment'', str '': '', quoted ''FPOST'', str '','', [0x0A],
      str ''  '', quoted ''conclusion'', str '': '', quoted ''KO'', str '','', [0x0A],
      str ''  '', quoted ''localImage'', str '': null,'', [0x0A],
      str ''  '', quoted ''steps'', str '': ['', [0x0A],
      str ''    {'', [0x0A],
      str ''      '', quoted ''id'', str '': '', quoted ''id-1'', str '','', [0x0A],
      str ''      '', quoted ''title'', str '': '', [0x22, 0xC9], str ''tape 1'', [0x22], str '','', [0x0A],
      str ''      '', quoted ''content'', str '': '',
        [0x22], str ''<p>'', [0x5C, 0x22], str ''ok'', [0x5C, 0x22], str ''</p>'', [0x22], [0x0A],
      str ''    }'', [0x0A],
      str ''  ]'', [0x0A],
      str ''}'']"


definition doc3 :: AppData where
  "doc3 = doc0\<lparr>steps :=
     [\<lparr>id_step = str ''id-1'', title = etape @ str ''1'', content = []\<rparr>,
      \<lparr>id_step = str ''id-2'', title = etape @ str ''2'', content = []\<rparr>,
      \<lparr>id_step = str ''id-3'', title = etape @ str ''3'', content = []\<rparr>]\<rparr>"

definition doc_dup :: AppData where
  "doc_dup = doc0\<lparr>steps :=
     [\<lparr>id_step = str ''id-1'', title = etape @ str ''1'', content = []\<rparr>,
      \<lparr>id_step = str ''id-1'', title = etape @ str ''2'', content = []\<rparr>,
      \<lparr>id_step = str ''id-3'', title = etape @ str ''3'', content = []\<rparr>]\<rparr>"

section \<open>Facts about strings and lists of steps\<close>

lemma of_char_lt: "(of_char a :: nat) < 65536"
proof -
  have "(of_char a :: nat) mod 256 < 256" by simp
  then have "(of_char a :: nat) < 256" by (simp only: of_char_mod_256)
  then show ?thesis by linarith
qed

lemma unat_code_unit: "unat (of_nat (of_char a) :: 16 word) = of_char a"
  by (rule of_nat_inverse [OF refl]) (use of_char_lt[of a] in simp)

lemma code_unit_inj: "(of_nat (of_char a) :: 16 word) = of_nat (of_char b) \<longleftrightarrow> a = b"
proof
  assume h: "(of_nat (of_char a) :: 16 word) = of_nat (of_char b)"
  have "(of_char a :: nat) = unat (of_nat (of_char a) :: 16 word)" by (simp only: unat_code_unit)
  also have "\<dots> = unat (of_nat (of_char b) :: 16 word)" by (simp only: h)
  also have "\<dots> = of_char b" by (simp only: unat_code_unit)
  finally show "a = b" by (simp only: of_char_eq_iff)
next
  assume "a = b" then show "(of_nat (of_char a) :: 16 word) = of_nat (of_char b)" by (simp only:)
qed

lemma str_eq_iff: "str a = str b \<longleftrightarrow> a = b"
proof (induction a arbitrary: b)
  case Nil
  then show ?case by (cases b) (simp_all add: str_def)
next
  case (Cons x xs)
  show ?case
  proof (cases b)
    case Nil
    then show ?thesis by (simp add: str_def)
  next
    case (Cons y ys)
    have "str (x # xs) = str (y # ys) \<longleftrightarrow>
          (of_nat (of_char x) :: 16 word) = of_nat (of_char y) \<and> str xs = str ys"
      by (simp only: str_def list.map list.inject)
    then show ?thesis using Cons Cons.IH[of ys] by (simp only: code_unit_inj list.inject)
  qed
qed

lemma replace_non_digits_filter: "replace_non_digits s = filter isDigit s"
  by (induction s) simp_all

lemma not_in_ids_filter:
  "i \<notin> set (map id_step xs) \<Longrightarrow> filter (\<lambda>step. id_step step \<noteq> i) xs = xs"
  by (induction xs) auto

lemma not_in_ids_map:
  "i \<notin> set (map id_step xs) \<Longrightarrow> map (\<lambda>step. if id_step step = i then f step else step) xs = xs"
  by (induction xs) auto

lemma distinct_ids_filter:
  "distinct (map id_step xs) \<Longrightarrow> s \<in> set xs \<Longrightarrow>
   filter (\<lambda>step. id_step step \<noteq> id_step s) xs = remove1 s xs"
proof (induction xs)
  case Nil
  then show ?case by simp
next
  case (Cons x xs)
  show ?case
  proof (cases "x = s")
    case True
    with Cons.prems have "id_step s \<notin> set (map id_step xs)" by simp
    then show ?thesis using True by (simp add: not_in_ids_filter)
  next
    case False
    with Cons.prems have "s \<in> set xs" by simp
    moreover from this Cons.prems have "id_step x \<noteq> id_step s" by force
    ultimately show ?thesis using Cons False by simp
  qed
qed

section \<open>Facts about the rendered tree\<close>

lemma by_class_step_block:
  "c \<noteq> str ''mb-8'' \<Longrightarrow> c \<noteq> str ''step-title'' \<Longrightarrow> c \<noteq> str ''ql-editor'' \<Longrightarrow>
   by_class c (step_block idx step) = []"
  by (auto simp add: step_block_def cls_def avoid_break_def)

lemma by_class_step_blocks:
  "c \<noteq> str ''mb-8'' \<Longrightarrow> c \<noteq> str ''step-title'' \<Longrightarrow> c \<noteq> str ''ql-editor'' \<Longrightarrow>
   concat (map (by_class c) (step_blocks idx xs)) = []"
  by (induction xs arbitrary: idx) (simp_all add: by_class_step_block)

lemma by_class_image_block:
  "c \<noteq> str ''mb-8'' \<Longrightarrow> c \<noteq> str ''font-semibold mb-2'' \<Longrightarrow> c \<noteq> str ''pdf-image-main'' \<Longrightarrow>
   concat (map (by_class c) (image_block img)) = []"
  by (auto simp add: image_block_def cls_def split: option.splits)

lemma by_class_cover:
  "c \<noteq> str ''pdf-page'' \<Longrightarrow> c \<noteq> str ''pdf-header-band'' \<Longrightarrow>
   c \<noteq> str ''pdf-header-left'' \<Longrightarrow> c \<noteq> str ''pdf-header-right'' \<Longrightarrow>
   c \<noteq> str ''pdf-sub-header'' \<Longrightarrow>
   c \<noteq> str ''flex flex-col items-center justify-center'' \<Longrightarrow>
   c \<noteq> str ''w-[576px] h-[576px] object-contain'' \<Longrightarrow>
   c \<noteq> str ''mt-8 text-2xl font-bold text-slate-400 uppercase tracking-widest'' \<Longrightarrow>
   by_class c (cover_page f d) = []"
  by (auto simp add: cover_page_def cls_def)

lemma by_class_footer:
  "c \<noteq> str ''pdf-footer-fixed'' \<Longrightarrow> by_class c (pdf_footer_fixed d) = []"
  by (auto simp add: pdf_footer_fixed_def cls_def)

lemma sql_block_in_content:
  "by_class (str ''sql-block'') (pdf_content d digits) =
     [Elem ''div'' [cls ''sql-block'']
        [Text sql_prefix, Text (js_or digits (str ''XXXX'')), Text sql_suffix]]"
  by (simp add: pdf_content_def sql_block_def env_block_def conclusion_block_def h2_class_def
      by_class_step_blocks by_class_image_block cls_def avoid_break_def str_eq_iff)

lemma sql_block_in_PrintContent:
  "concat (map (by_class (str ''sql-block'')) (PrintContent f d digits)) =
     [Elem ''div'' [cls ''sql-block'']
        [Text sql_prefix, Text (js_or digits (str ''XXXX'')), Text sql_suffix]]"
  by (simp add: PrintContent_def sql_block_in_content by_class_cover spacer_row_def cls_def
      str_eq_iff)

lemma pdf_content_self:
  "by_class (str ''pdf-content'') (pdf_content d digits) = [pdf_content d digits]"
proof -
  have "by_class (str ''pdf-content'') (pdf_content d digits) =
        pdf_content d digits #
        concat (map (by_class (str ''pdf-content''))
          (case pdf_content d digits of Elem t a kids \<Rightarrow> kids | _ \<Rightarrow> []))"
    by (simp add: pdf_content_def cls_def)
  also have "concat (map (by_class (str ''pdf-content''))
          (case pdf_content d digits of Elem t a kids \<Rightarrow> kids | _ \<Rightarrow> [])) = []"
    by (simp add: pdf_content_def sql_block_def env_block_def conclusion_block_def h2_class_def
      by_class_step_blocks by_class_image_block cls_def avoid_break_def str_eq_iff)
  finally show ?thesis .
qed

lemma content_in_PrintContent:
  "concat (map (by_class (str ''pdf-content'')) (PrintContent f d digits)) = [pdf_content d digits]"
  by (simp add: PrintContent_def pdf_content_self by_class_cover spacer_row_def cls_def str_eq_iff)

section \<open>Facts about the JSON text\<close>

lemma hexval_hexdigit_all: "\<forall>k \<in> set [0..<16]. hexval (hexdigit k) = Some k"
  by (simp add: upt_rec hexval_def hexdigit_def)

lemma hex_digits_sum:
  fixes n :: nat
  shows "((n div 4096 * 16 + n div 256 mod 16) * 16 + n div 16 mod 16) * 16 + n mod 16 = n"
proof -
  define x where "x = n div 16"
  define y where "y = x div 16"
  define z where "z = y div 16"
  have a: "n div 256 = y" and b: "n div 4096 = z"
    by (simp_all add: x_def y_def z_def div_mult2_eq [symmetric])
  have n: "x * 16 + n mod 16 = n" by (simp add: x_def)
  have x: "y * 16 + x mod 16 = x" by (simp add: y_def)
  have y: "z * 16 + y mod 16 = y" by (simp add: z_def)
  have "((z * 16 + y mod 16) * 16 + x mod 16) * 16 + n mod 16 = n"
    by (simp only: y x n)
  then show ?thesis by (simp only: a b x_def [symmetric])
qed

lemma hexval_hexdigit: "k < 16 \<Longrightarrow> hexval (hexdigit k) = Some k"
  using hexval_hexdigit_all by simp
lemma unat_lt_65536: "unat (c :: 16 word) < 65536"
  using unsigned_less [of c, where 'a = nat] by simp
lemma hex4_digits:
  "hex4 (hexdigit (unat c div 4096)) (hexdigit (unat c div 256 mod 16))
        (hexdigit (unat c div 16 mod 16)) (hexdigit (unat c mod 16)) =
        Some (of_nat (((unat c div 4096 * 16 + unat c div 256 mod 16) * 16 + unat c div 16 mod 16) * 16 + unat c mod 16))"
  for c :: "16 word"
proof -
  have lt: "unat c < 65536" by (rule unat_lt_65536)
  then have d3: "unat c div 4096 < 16" by simp
  have d2: "unat c div 256 mod 16 < 16" and d1: "unat c div 16 mod 16 < 16" and d0: "unat c mod 16 < 16"
    by simp_all
  show ?thesis
    by (simp only: hex4_def hexval_hexdigit [OF d3] hexval_hexdigit [OF d2] hexval_hexdigit [OF d1]
        hexval_hexdigit [OF d0] prod.case option.case)
qed

lemma hex4_u_escape:
  "hex4 (hexdigit (unat c div 4096)) (hexdigit (unat c div 256 mod 16))
        (hexdigit (unat c div 16 mod 16)) (hexdigit (unat c mod 16)) = Some (c :: 16 word)"
proof -
  have "hex4 (hexdigit (unat c div 4096)) (hexdigit (unat c div 256 mod 16))
        (hexdigit (unat c div 16 mod 16)) (hexdigit (unat c mod 16)) = Some (of_nat (unat c))"
    by (simp only: hex4_digits hex_digits_sum)
  then show ?thesis by simp
qed

lemma parse_chars_u_escape:
  "parse_chars (u_escape c @ rest) = cons_unit c (parse_chars rest)"
  by (simp add: u_escape_def hex4_u_escape)

lemma parse_chars_quote_unit:
  "parse_chars (quote_unit c @ rest) = cons_unit c (parse_chars rest)"
proof -
  consider "c = 0x08" | "c = 0x09" | "c = 0x0A" | "c = 0x0C" | "c = 0x0D" | "c = 0x22" | "c = 0x5C"
    | "c \<notin> {0x08, 0x09, 0x0A, 0x0C, 0x0D, 0x22, 0x5C}" "c < 0x20 \<or> is_high c \<or> is_low c"
    | "c \<notin> {0x08, 0x09, 0x0A, 0x0C, 0x0D, 0x22, 0x5C}" "\<not> (c < 0x20 \<or> is_high c \<or> is_low c)"
    by blast
  then show ?thesis
  proof cases
    case 8
    then have "quote_unit c = u_escape c" by (simp add: quote_unit_def)
    then show ?thesis by (simp only: parse_chars_u_escape)
  next
    case 9
    then have "quote_unit c = [c]" by (simp add: quote_unit_def)
    then show ?thesis using 9 by simp
  qed (simp_all add: quote_unit_def unescape_def)
qed

lemma parse_chars_raw:
  "c \<noteq> 0x22 \<Longrightarrow> c \<noteq> 0x5C \<Longrightarrow> \<not> c < 0x20 \<Longrightarrow>
   parse_chars (c # rest) = cons_unit c (parse_chars rest)"
  by simp

lemma surrogate_raw:
  "is_high c \<or> is_low c \<Longrightarrow> c \<noteq> 0x22 \<and> c \<noteq> 0x5C \<and> \<not> c < 0x20"
  by (auto simp add: is_high_def is_low_def word_le_nat_alt word_less_nat_alt)

lemma parse_chars_pair:
  assumes "is_high c" and "is_low d"
  shows "parse_chars (c # d # rest) = cons_unit c (cons_unit d (parse_chars rest))"
proof -
  from assms have c: "c \<noteq> 0x22" "c \<noteq> 0x5C" "\<not> c < 0x20"
    and d: "d \<noteq> 0x22" "d \<noteq> 0x5C" "\<not> d < 0x20"
    using surrogate_raw [of c] surrogate_raw [of d] by simp_all
  show ?thesis
    by (simp only: parse_chars_raw [OF c] parse_chars_raw [OF d])
qed

lemma parse_chars_quote_units:
  "parse_chars (quote_units s @ 0x22 # rest) = Some (s, rest)"
proof (induction s rule: quote_units.induct)
  case 1
  then show ?case by simp
next
  case (2 c)
  have "parse_chars (quote_units [c] @ 0x22 # rest) = cons_unit c (parse_chars (0x22 # rest))"
    by (simp only: quote_units.simps parse_chars_quote_unit)
  then show ?case by (simp add: cons_unit_def)
next
  case (3 c d ds)
  show ?case
  proof (cases "is_high c \<and> is_low d")
    case True
    then have "quote_units (c # d # ds) @ 0x22 # rest = c # d # (quote_units ds @ 0x22 # rest)"
      by simp
    then have "parse_chars (quote_units (c # d # ds) @ 0x22 # rest) =
        cons_unit c (cons_unit d (parse_chars (quote_units ds @ 0x22 # rest)))"
      using True by (simp only: parse_chars_pair)
    then show ?thesis using "3.IH"(1) [OF True] by (simp only: cons_unit_def option.case prod.case)
  next
    case False
    then have "quote_units (c # d # ds) @ 0x22 # rest =
        quote_unit c @ (quote_units (d # ds) @ 0x22 # rest)"
      by auto
    then have "parse_chars (quote_units (c # d # ds) @ 0x22 # rest) =
        cons_unit c (parse_chars (quote_units (d # ds) @ 0x22 # rest))"
      by (simp only: parse_chars_quote_unit)
    then show ?thesis using "3.IH"(2) [OF False] by (simp only: cons_unit_def option.case prod.case)
  qed
qed

lemma parse_chars_Quote:
  "QuoteJSONString s @ rest = 0x22 # quote_units s @ 0x22 # rest"
  by (simp add: QuoteJSONString_def)

lemma skip_ws_spaces: "skip_ws (spaces n @ s) = skip_ws s"
  by (induction n) (simp_all add: spaces_def skip_ws_def is_ws_def)

lemma skip_ws_nl: "skip_ws (0x0A # s) = skip_ws s"
  by (simp add: skip_ws_def is_ws_def)

lemma skip_ws_sp: "skip_ws (0x20 # s) = skip_ws s"
  by (simp add: skip_ws_def is_ws_def)

lemma skip_ws_stop: "\<not> is_ws c \<Longrightarrow> skip_ws (c # s) = c # s"
  by (simp add: skip_ws_def)

lemma skip_ws_indent: "\<not> is_ws c \<Longrightarrow> skip_ws (0x0A # spaces n @ c # s) = c # s"
  by (simp add: skip_ws_nl skip_ws_spaces skip_ws_stop)

lemma opens_value_facts:
  "opens_value c \<Longrightarrow> \<not> is_ws c \<and> c \<noteq> 0x5D \<and> c \<noteq> 0x7D \<and> c \<noteq> 0x2C"
  by (auto simp add: opens_value_def is_ws_def)

lemma stringify_head: "plain v \<Longrightarrow> \<exists>c cs. stringify ind v = c # cs \<and> opens_value c"
proof (cases v)
  case (JArr xs)
  then show ?thesis by (cases xs) (simp_all add: opens_value_def str_def)
next
  case (JObj ps)
  then show ?thesis by (cases ps) (simp_all add: opens_value_def str_def)
qed (simp_all add: opens_value_def str_def QuoteJSONString_def)

lemma stringify_elems_head:
  "xs \<noteq> [] \<Longrightarrow> plain_list xs \<Longrightarrow> \<exists>c cs. stringify_elems ind xs = c # cs \<and> opens_value c"
proof (cases xs)
  case Nil
  assume "xs \<noteq> []" with Nil show ?thesis by simp
next
  case (Cons x ys)
  assume "plain_list xs"
  with Cons have "plain x" by simp
  from stringify_head [OF this, of ind] obtain c cs where "stringify ind x = c # cs" "opens_value c"
    by blast
  then show ?thesis using Cons by (cases ys) simp_all
qed

lemma stringify_props_head:
  "ps \<noteq> [] \<Longrightarrow> \<exists>cs. stringify_props ind ps = 0x22 # cs"
proof (cases ps)
  case Nil
  assume "ps \<noteq> []" with Nil show ?thesis by simp
next
  case (Cons p qs)
  then show ?thesis by (cases p; cases qs) (simp_all add: QuoteJSONString_def)
qed

lemma set_prop_fresh: "k \<notin> fst ` set acc \<Longrightarrow> set_prop k v acc = acc @ [(k, v)]"
  by (induction acc) auto

lemma foldl_set_prop:
  "distinct (map fst (acc @ ps)) \<Longrightarrow> foldl (\<lambda>ps (k, v). set_prop k v ps) acc ps = acc @ ps"
proof (induction ps arbitrary: acc)
  case Nil
  then show ?case by simp
next
  case (Cons p ps)
  obtain k v where p: "p = (k, v)" by (cases p)
  from Cons.prems p have "k \<notin> fst ` set acc" by auto
  then have "set_prop k v acc = acc @ [(k, v)]" by (rule set_prop_fresh)
  moreover from Cons.prems p have "distinct (map fst ((acc @ [(k, v)]) @ ps))" by simp
  ultimately show ?case using Cons.IH [of "acc @ [(k, v)]"] p by simp
qed

lemma props_of_distinct: "distinct (map fst ps) \<Longrightarrow> props_of ps = ps"
  using foldl_set_prop [of "[]" ps] by (simp add: props_of_def)

lemma parse_value_array:
  "skip_ws cs = d # r \<Longrightarrow> d \<noteq> 0x5D \<Longrightarrow>
   parse_value (0x5B # cs) =
     (case parse_elements (d # r) of None \<Rightarrow> None | Some (vs, r') \<Rightarrow> Some (JArr vs, r'))"
  by (simp add: parse_value.simps)

lemma parse_value_object:
  "skip_ws cs = d # r \<Longrightarrow> d \<noteq> 0x7D \<Longrightarrow>
   parse_value (0x7B # cs) =
     (case parse_members (d # r) of None \<Rightarrow> None | Some (kvs, r') \<Rightarrow> Some (JObj (props_of kvs), r'))"
  by (simp add: parse_value.simps)

lemma parse_elements_last:
  "parse_value s = Some (v, r) \<Longrightarrow> length r < length s \<Longrightarrow> skip_ws r = 0x5D # r' \<Longrightarrow>
   parse_elements s = Some ([v], r')"
  by (subst parse_elements.simps) simp

lemma parse_elements_more:
  "parse_value s = Some (v, r) \<Longrightarrow> length r < length s \<Longrightarrow> skip_ws r = 0x2C # r' \<Longrightarrow>
   parse_elements (skip_ws r') = Some (vs, r'') \<Longrightarrow>
   parse_elements s = Some (v # vs, r'')"
  by (subst parse_elements.simps) simp

lemma parse_members_last:
  "parse_chars s1 = Some (k, s2) \<Longrightarrow> skip_ws s2 = 0x3A # s3 \<Longrightarrow>
   parse_value (skip_ws s3) = Some (v, r) \<Longrightarrow> length r < length (0x22 # s1) \<Longrightarrow>
   skip_ws r = 0x7D # r' \<Longrightarrow>
   parse_members (0x22 # s1) = Some ([(k, v)], r')"
  by (subst parse_members.simps) simp

lemma parse_members_more:
  "parse_chars s1 = Some (k, s2) \<Longrightarrow> skip_ws s2 = 0x3A # s3 \<Longrightarrow>
   parse_value (skip_ws s3) = Some (v, r) \<Longrightarrow> length r < length (0x22 # s1) \<Longrightarrow>
   skip_ws r = 0x2C # r' \<Longrightarrow> parse_members (skip_ws r') = Some (kvs, r'') \<Longrightarrow>
   parse_members (0x22 # s1) = Some ((k, v) # kvs, r'')"
  by (subst parse_members.simps) simp

lemma is_ws_close: "\<not> is_ws 0x5D" "\<not> is_ws 0x7D" "\<not> is_ws 0x2C" "\<not> is_ws 0x3A"
  by (simp_all add: is_ws_def)

lemma parse_value_string:
  "parse_value (QuoteJSONString s @ rest) = Some (JStr s, rest)"
  by (simp add: QuoteJSONString_def parse_value.simps parse_chars_quote_units)

lemma parse_value_literals:
  "parse_value (str ''null'' @ rest) = Some (JNull, rest)"
  "parse_value (str ''true'' @ rest) = Some (JBool True, rest)"
  "parse_value (str ''false'' @ rest) = Some (JBool False, rest)"
  by (simp_all add: parse_value.simps literal_def str_def)

lemma parse_value_empty:
  "parse_value (str ''[]'' @ rest) = Some (JArr [], rest)"
  "parse_value (str ''{}'' @ rest) = Some (JObj [], rest)"
  by (simp_all add: parse_value.simps str_def skip_ws_stop is_ws_close)

lemma roundtrip:
  "plain v \<Longrightarrow> parse_value (stringify ind v @ rest) = Some (v, rest)"
  "xs \<noteq> [] \<Longrightarrow> plain_list xs \<Longrightarrow>
     parse_elements (stringify_elems ind xs @ 0x0A # spaces k @ 0x5D # rest) = Some (xs, rest)"
  "ps \<noteq> [] \<Longrightarrow> plain_props ps \<Longrightarrow>
     parse_members (stringify_props ind ps @ 0x0A # spaces k @ 0x7D # rest) = Some (ps, rest)"
proof (induction ind v and ind xs and ind ps arbitrary: rest and k rest and k rest
    rule: stringify_stringify_elems_stringify_props.induct)
  case (1 ind)
  show ?case by (simp add: parse_value_literals)
next
  case (2 ind b)
  show ?case by (simp add: parse_value_literals)
next
  case (3 ind n)
  then show ?case by simp
next
  case (4 ind s)
  show ?case by (simp add: parse_value_string)
next
  case (5 ind)
  show ?case by (simp add: parse_value_empty)
next
  case (6 ind x xs)
  let ?tail = "0x0A # spaces ind @ 0x5D # rest"
  from "6.prems" have pl: "plain_list (x # xs)" by simp
  from stringify_elems_head [OF _ pl, of "ind + 2"] obtain c cs where
    e: "stringify_elems (ind + 2) (x # xs) = c # cs" and c: "opens_value c" by auto
  from c have nws: "\<not> is_ws c" and nc: "c \<noteq> 0x5D" using opens_value_facts by auto
  have sk: "skip_ws (0x0A # spaces (ind + 2) @ c # (cs @ ?tail)) = c # (cs @ ?tail)"
    using nws by (rule skip_ws_indent)
  have ih: "parse_elements (c # (cs @ ?tail)) = Some (x # xs, rest)"
    using "6.IH" [OF _ pl, of ind rest] e by simp
  have "stringify ind (JArr (x # xs)) @ rest = 0x5B # (0x0A # spaces (ind + 2) @ c # (cs @ ?tail))"
    using e by simp
  then show ?case
    by (simp only: parse_value_array [OF sk nc] ih option.case prod.case)
next
  case (7 ind)
  show ?case by (simp add: parse_value_empty)
next
  case (8 ind p ps)
  let ?tail = "0x0A # spaces ind @ 0x7D # rest"
  from "8.prems" have pl: "plain_props (p # ps)" and di: "distinct (map fst (p # ps))" by simp_all
  from stringify_props_head [of "p # ps" "ind + 2"] obtain cs where
    e: "stringify_props (ind + 2) (p # ps) = 0x22 # cs" by auto
  have nws: "\<not> is_ws (0x22 :: jschar)" and nc: "(0x22 :: jschar) \<noteq> 0x7D" by (simp_all add: is_ws_def)
  have sk: "skip_ws (0x0A # spaces (ind + 2) @ 0x22 # (cs @ ?tail)) = 0x22 # (cs @ ?tail)"
    using nws by (rule skip_ws_indent)
  have ih: "parse_members (0x22 # (cs @ ?tail)) = Some (p # ps, rest)"
    using "8.IH" [OF _ pl, of ind rest] e by simp
  have "stringify ind (JObj (p # ps)) @ rest = 0x7B # (0x0A # spaces (ind + 2) @ 0x22 # (cs @ ?tail))"
    using e by simp
  then show ?case
    by (simp only: parse_value_object [OF sk nc] ih option.case prod.case props_of_distinct [OF di])
next
  case (9 ind)
  then show ?case by simp
next
  case (10 ind x)
  let ?tail = "0x0A # spaces k @ 0x5D # rest"
  from "10.prems" have px: "plain x" by simp
  have pv: "parse_value (stringify ind x @ ?tail) = Some (x, ?tail)"
    using "10.IH" [OF px] .
  from stringify_head [OF px, of ind] have len: "length ?tail < length (stringify ind x @ ?tail)"
    by auto
  have sk: "skip_ws ?tail = 0x5D # rest"
    using is_ws_close(1) by (rule skip_ws_indent)
  show ?case using parse_elements_last [OF pv len sk] by simp
next
  case (11 ind x y ys)
  let ?tail = "0x0A # spaces k @ 0x5D # rest"
  let ?more = "stringify_elems ind (y # ys) @ ?tail"
  let ?r = "0x2C # 0x0A # spaces ind @ ?more"
  from "11.prems" have px: "plain x" and pl: "plain_list (y # ys)" by simp_all
  have pv: "parse_value (stringify ind x @ ?r) = Some (x, ?r)"
    using "11.IH"(1) [OF px] .
  from stringify_head [OF px, of ind] have len: "length ?r < length (stringify ind x @ ?r)"
    by auto
  have sk: "skip_ws ?r = ?r"
    using is_ws_close(3) by (rule skip_ws_stop)
  from stringify_elems_head [OF _ pl, of ind] obtain c cs where
    e: "stringify_elems ind (y # ys) = c # cs" and c: "opens_value c" by auto
  from c have nws: "\<not> is_ws c" using opens_value_facts by auto
  have "skip_ws (0x0A # spaces ind @ c # (cs @ ?tail)) = c # (cs @ ?tail)"
    using nws by (rule skip_ws_indent)
  then have sk2: "skip_ws (0x0A # spaces ind @ ?more) = ?more" using e by simp
  have ih: "parse_elements (skip_ws (0x0A # spaces ind @ ?more)) = Some (y # ys, rest)"
    using "11.IH"(2) [OF _ pl, of k rest] by (simp only: sk2) simp
  show ?case using parse_elements_more [OF pv len sk ih] by simp
next
  case (12 ind)
  then show ?case by simp
next
  case (13 ind key v)
  let ?tail = "0x0A # spaces k @ 0x7D # rest"
  from "13.prems" have px: "plain v" by simp
  let ?s1 = "quote_units key @ 0x22 # (0x3A # 0x20 # stringify ind v @ ?tail)"
  have pc: "parse_chars ?s1 = Some (key, 0x3A # 0x20 # stringify ind v @ ?tail)"
    by (rule parse_chars_quote_units)
  have sk1: "skip_ws (0x3A # 0x20 # stringify ind v @ ?tail) = 0x3A # (0x20 # stringify ind v @ ?tail)"
    using is_ws_close(4) by (rule skip_ws_stop)
  from stringify_head [OF px, of ind] obtain c cs where
    e: "stringify ind v = c # cs" and c: "opens_value c" by auto
  from c have nws: "\<not> is_ws c" using opens_value_facts by auto
  have sk2: "skip_ws (0x20 # stringify ind v @ ?tail) = stringify ind v @ ?tail"
    using nws e by (simp add: skip_ws_sp skip_ws_stop)
  have pv: "parse_value (skip_ws (0x20 # stringify ind v @ ?tail)) = Some (v, ?tail)"
    using "13.IH" [OF px] by (simp only: sk2)
  have len: "length ?tail < length (0x22 # ?s1)" by simp
  have sk3: "skip_ws ?tail = 0x7D # rest"
    using is_ws_close(2) by (rule skip_ws_indent)
  show ?case using parse_members_last [OF pc sk1 pv len sk3] by (simp add: QuoteJSONString_def)
next
  case (14 ind key v q qs)
  let ?tail = "0x0A # spaces k @ 0x7D # rest"
  let ?more = "stringify_props ind (q # qs) @ ?tail"
  let ?r = "0x2C # 0x0A # spaces ind @ ?more"
  from "14.prems" have px: "plain v" and pl: "plain_props (q # qs)" by simp_all
  let ?s1 = "quote_units key @ 0x22 # (0x3A # 0x20 # stringify ind v @ ?r)"
  have pc: "parse_chars ?s1 = Some (key, 0x3A # 0x20 # stringify ind v @ ?r)"
    by (rule parse_chars_quote_units)
  have sk1: "skip_ws (0x3A # 0x20 # stringify ind v @ ?r) = 0x3A # (0x20 # stringify ind v @ ?r)"
    using is_ws_close(4) by (rule skip_ws_stop)
  from stringify_head [OF px, of ind] obtain c cs where
    e: "stringify ind v = c # cs" and c: "opens_value c" by auto
  from c have nws: "\<not> is_ws c" using opens_value_facts by auto
  have sk2: "skip_ws (0x20 # stringify ind v @ ?r) = stringify ind v @ ?r"
    using nws e by (simp add: skip_ws_sp skip_ws_stop)
  have pv: "parse_value (skip_ws (0x20 # stringify ind v @ ?r)) = Some (v, ?r)"
    using "14.IH"(1) [OF px] by (simp only: sk2)
  have len: "length ?r < length (0x22 # ?s1)" by simp
  have sk3: "skip_ws ?r = ?r"
    using is_ws_close(3) by (rule skip_ws_stop)
  from stringify_props_head [of "q # qs" ind] obtain ds where
    e2: "stringify_props ind (q # qs) = 0x22 # ds" by auto
  have "skip_ws (0x0A # spaces ind @ 0x22 # (ds @ ?tail)) = 0x22 # (ds @ ?tail)"
    by (rule skip_ws_indent) (simp add: is_ws_def)
  then have sk4: "skip_ws (0x0A # spaces ind @ ?more) = ?more" using e2 by simp
  have ih: "parse_members (skip_ws (0x0A # spaces ind @ ?more)) = Some (q # qs, rest)"
    using "14.IH"(2) [OF _ pl, of k rest] by (simp only: sk4) simp
  show ?case using parse_members_more [OF pc sk1 pv len sk3 ih] by (simp add: QuoteJSONString_def)
qed

lemma replacement_not_surrogate: "\<not> is_high 0xFFFD \<and> \<not> is_low 0xFFFD"
  by (simp add: is_high_def is_low_def)

lemma toWellFormed_Cons_plain:
  "\<not> is_high c \<Longrightarrow> \<not> is_low c \<Longrightarrow> toWellFormed (c # s) = c # toWellFormed s"
  by (cases s) simp_all

lemma toWellFormed_Cons_pair:
  "is_high c \<Longrightarrow> is_low d \<Longrightarrow> toWellFormed (c # d # s) = c # d # toWellFormed s"
  by simp

lemma well_formed_Nil: "well_formed []"
  by (simp add: well_formed_def)

lemma well_formed_append: "well_formed a \<Longrightarrow> well_formed b \<Longrightarrow> well_formed (a @ b)"
proof (induction a rule: toWellFormed.induct)
  case 1
  then show ?case by simp
next
  case (2 c)
  from "2.prems"(1) have ns: "\<not> is_high c" "\<not> is_low c"
    using replacement_not_surrogate by (auto simp add: well_formed_def split: if_splits)
  show ?case using "2.prems"(2) ns by (simp add: well_formed_def toWellFormed_Cons_plain)
next
  case (3 c d ds)
  show ?case
  proof (cases "is_high c \<and> is_low d")
    case True
    with "3.prems"(1) have "well_formed ds" by (simp add: well_formed_def)
    from "3.IH"(1) [OF True this "3.prems"(2)] show ?thesis
      using True by (simp add: well_formed_def)
  next
    case False
    with "3.prems"(1) have ns: "\<not> is_high c" "\<not> is_low c" and wf: "well_formed (d # ds)"
      using replacement_not_surrogate by (auto simp add: well_formed_def split: if_splits)
    from "3.IH"(2) [OF False wf "3.prems"(2)] show ?thesis
      using ns by (simp add: well_formed_def toWellFormed_Cons_plain)
  qed
qed

lemma ascii_not_surrogate: "c < 0x80 \<Longrightarrow> \<not> is_high c \<and> \<not> is_low c"
  by (auto simp add: is_high_def is_low_def word_le_nat_alt word_less_nat_alt)

lemma ascii_well_formed: "ascii s \<Longrightarrow> well_formed s"
proof (induction s)
  case Nil
  then show ?case by (simp add: well_formed_def)
next
  case (Cons c s)
  then have "c < 0x80" and "well_formed s" by (simp_all add: ascii_def)
  then show ?case using ascii_not_surrogate [of c]
    by (simp add: well_formed_def toWellFormed_Cons_plain)
qed

lemma hexdigit_ascii: "k < 16 \<Longrightarrow> hexdigit k < 0x80"
proof -
  have "\<forall>k \<in> set [0..<16]. hexdigit k < 0x80"
    by (simp add: upt_rec hexdigit_def)
  then show "k < 16 \<Longrightarrow> hexdigit k < 0x80" by simp
qed

lemma u_escape_ascii: "ascii (u_escape c)"
proof -
  have "unat c < 65536" by (rule unat_lt_65536)
  then have "unat c div 4096 < 16" by simp
  then show ?thesis by (simp add: ascii_def u_escape_def hexdigit_ascii)
qed

lemma quote_unit_well_formed: "well_formed (quote_unit c)"
proof (cases "c < 0x20 \<or> is_high c \<or> is_low c")
  case True
  have "ascii (quote_unit c)"
    using True u_escape_ascii [of c] by (simp add: quote_unit_def ascii_def)
  then show ?thesis by (rule ascii_well_formed)
next
  case False
  then have "\<not> is_high c" "\<not> is_low c" by simp_all
  then have "well_formed [c]" by (simp add: well_formed_def)
  moreover have "ascii [0x5C, 0x22 :: jschar]" "ascii [0x5C, 0x5C :: jschar]" by (simp_all add: ascii_def)
  ultimately show ?thesis using False
    by (auto simp add: quote_unit_def dest: ascii_well_formed)
qed

lemma quote_units_well_formed: "well_formed (quote_units s)"
proof (induction s rule: quote_units.induct)
  case 1
  then show ?case by (simp add: well_formed_def)
next
  case (2 c)
  then show ?case by (simp add: quote_unit_well_formed)
next
  case (3 c d ds)
  show ?case
  proof (cases "is_high c \<and> is_low d")
    case True
    with "3.IH"(1) show ?thesis by (simp add: well_formed_def)
  next
    case False
    with "3.IH"(2) show ?thesis by (auto simp add: quote_unit_well_formed well_formed_append)
  qed
qed

lemma Quote_well_formed: "well_formed (QuoteJSONString s)"
proof -
  have q: "well_formed [0x22 :: jschar]" by (rule ascii_well_formed) (simp add: ascii_def)
  show ?thesis unfolding QuoteJSONString_def
    by (intro well_formed_append q quote_units_well_formed)
qed

lemma spaces_well_formed: "well_formed (spaces n)"
  by (rule ascii_well_formed) (simp add: ascii_def spaces_def list_all_iff)

lemma pieces_well_formed:
  "well_formed (str ''null'')" "well_formed (str ''true'')" "well_formed (str ''false'')"
  "well_formed (str ''[]'')" "well_formed (str ''{}'')"
  "well_formed [0x5B, 0x0A]" "well_formed [0x7B, 0x0A]" "well_formed [0x0A]"
  "well_formed [0x5D]" "well_formed [0x7D]" "well_formed [0x2C, 0x0A]" "well_formed [0x3A, 0x20]"
  by (rule ascii_well_formed, simp add: ascii_def str_def)+

lemma stringify_well_formed:
  "plain v \<Longrightarrow> well_formed (stringify ind v)"
  "plain_list xs \<Longrightarrow> well_formed (stringify_elems ind xs)"
  "plain_props ps \<Longrightarrow> well_formed (stringify_props ind ps)"
proof (induction ind v and ind xs and ind ps
    rule: stringify_stringify_elems_stringify_props.induct)
  case (6 ind x xs)
  then have "well_formed (stringify_elems (ind + 2) (x # xs))" by simp
  then show ?case
    by (simp only: stringify.simps) (intro well_formed_append pieces_well_formed spaces_well_formed)
next
  case (8 ind p ps)
  then have "well_formed (stringify_props (ind + 2) (p # ps))" by simp
  then show ?case
    by (simp only: stringify.simps) (intro well_formed_append pieces_well_formed spaces_well_formed)
next
  case (11 ind x y ys)
  then have "well_formed (stringify ind x)" "well_formed (stringify_elems ind (y # ys))" by simp_all
  then show ?case
    by (simp only: stringify_elems.simps) (intro well_formed_append pieces_well_formed spaces_well_formed)
next
  case (13 ind k v)
  then have "well_formed (stringify ind v)" by simp
  then show ?case
    by (simp only: stringify_props.simps)
      (intro well_formed_append pieces_well_formed Quote_well_formed)
next
  case (14 ind k v q qs)
  then have "well_formed (stringify ind v)" "well_formed (stringify_props ind (q # qs))" by simp_all
  then show ?case
    by (simp only: stringify_props.simps)
      (intro well_formed_append pieces_well_formed Quote_well_formed spaces_well_formed)
qed (simp_all add: pieces_well_formed Quote_well_formed well_formed_Nil)

lemma JSON_roundtrip: "plain v \<Longrightarrow> JSON_parse (JSON_stringify v) = Some v"
proof -
  assume pl: "plain v"
  from stringify_head [OF pl, of 0] obtain c cs where
    e: "stringify 0 v = c # cs" and c: "opens_value c" by auto
  from c have "\<not> is_ws c" using opens_value_facts by auto
  then have sk: "skip_ws (stringify 0 v) = stringify 0 v" using e by (simp add: skip_ws_stop)
  have "parse_value (stringify 0 v @ []) = Some (v, [])" using pl by (rule roundtrip(1))
  then have pv: "parse_value (skip_ws (stringify 0 v)) = Some (v, [])" by (simp add: sk)
  have "skip_ws [] = []" by (simp add: skip_ws_def)
  then show ?thesis by (simp add: JSON_parse_def JSON_stringify_def pv)
qed

lemma blob_text_stringify: "plain v \<Longrightarrow> blob_text (JSON_stringify v) = JSON_stringify v"
proof -
  assume pl: "plain v"
  from stringify_head [OF pl, of 0] obtain c cs where
    e: "stringify 0 v = c # cs" and c: "opens_value c" by auto
  from c have nb: "c \<noteq> 0xFEFF" by (auto simp add: opens_value_def)
  have "toWellFormed (stringify 0 v) = stringify 0 v"
    using stringify_well_formed(1) [OF pl, of 0] by (simp add: well_formed_def)
  then show ?thesis using e nb by (simp add: blob_text_def JSON_stringify_def strip_bom_def)
qed

section \<open>The parser consumes what it reads\<close>

lemma parse_elements_shorter: "parse_elements s = Some (vs, r) \<Longrightarrow> length r < length s"
proof (induction "length s" arbitrary: s vs r rule: less_induct)
  case less
  from less.prems obtain v r0 d r' where
    g: "length r0 < length s" and sk: "skip_ws r0 = d # r'" and
    alt: "(d = 0x5D \<and> r = r') \<or> (d = 0x2C \<and> (\<exists>vs'. parse_elements (skip_ws r') = Some (vs', r)))"
    by (subst (asm) parse_elements.simps) (auto split: option.splits if_splits list.splits)
  from sk have l1: "length r' < length r0" by (rule skip_ws_Cons_length)
  from alt show ?case
  proof
    assume "d = 0x5D \<and> r = r'"
    then show ?thesis using l1 g by simp
  next
    assume "d = 0x2C \<and> (\<exists>vs'. parse_elements (skip_ws r') = Some (vs', r))"
    then obtain vs' where pe: "parse_elements (skip_ws r') = Some (vs', r)" by blast
    have "length (skip_ws r') < length s" using length_skip_ws [of r'] l1 g by simp
    from less.hyps [OF this pe] show ?thesis using length_skip_ws [of r'] l1 g by simp
  qed
qed

lemma parse_members_shorter: "parse_members s = Some (kvs, r) \<Longrightarrow> length r < length s"
proof (induction "length s" arbitrary: s kvs r rule: less_induct)
  case less
  from less.prems obtain r0 d r' where
    g: "length r0 < length s" and sk: "skip_ws r0 = d # r'" and
    alt: "(d = 0x7D \<and> r = r') \<or> (d = 0x2C \<and> (\<exists>kvs'. parse_members (skip_ws r') = Some (kvs', r)))"
    by (subst (asm) parse_members.simps) (auto split: option.splits if_splits list.splits)
  from sk have l1: "length r' < length r0" by (rule skip_ws_Cons_length)
  from alt show ?case
  proof
    assume "d = 0x7D \<and> r = r'"
    then show ?thesis using l1 g by simp
  next
    assume "d = 0x2C \<and> (\<exists>kvs'. parse_members (skip_ws r') = Some (kvs', r))"
    then obtain kvs' where pe: "parse_members (skip_ws r') = Some (kvs', r)" by blast
    have "length (skip_ws r') < length s" using length_skip_ws [of r'] l1 g by simp
    from less.hyps [OF this pe] show ?thesis using length_skip_ws [of r'] l1 g by simp
  qed
qed

lemma digits1_shorter: "digits1 s = Some (ds, r) \<Longrightarrow> length r < length s"
proof -
  assume h: "digits1 s = Some (ds, r)"
  then have ne: "takeWhile isDigit s \<noteq> []" and r: "r = dropWhile isDigit s"
    by (auto simp add: digits1_def split: if_splits)
  have "length (takeWhile isDigit s) + length (dropWhile isDigit s) = length s"
    by (metis length_append takeWhile_dropWhile_id)
  then show ?thesis using ne r by (cases "takeWhile isDigit s") auto
qed

lemma parse_int_shorter: "parse_int s = Some (i, r) \<Longrightarrow> length r < length s"
  by (auto simp add: parse_int_def split: list.splits if_splits dest: digits1_shorter)

lemma parse_frac_le: "parse_frac s = Some (f, r) \<Longrightarrow> length r \<le> length s"
  by (auto simp add: parse_frac_def split: list.splits if_splits option.splits dest!: digits1_shorter)

lemma parse_exp_le: "parse_exp s = Some (e, r) \<Longrightarrow> length r \<le> length s"
  by (auto simp add: parse_exp_def split: list.splits if_splits option.splits dest!: digits1_shorter)

lemma parse_number_shorter: "parse_number s = Some (n, r) \<Longrightarrow> length r < length s"
proof -
  assume h: "parse_number s = Some (n, r)"
  define s1 where "s1 = (case s of c # cs \<Rightarrow> if c = 0x2D then cs else s | [] \<Rightarrow> s)"
  have s1: "length s1 \<le> length s"
    by (simp add: s1_def split: list.splits)
  from h obtain i s2 where pi: "parse_int s1 = Some (i, s2)"
    by (cases "parse_int s1") (auto simp add: parse_number_def s1_def split: list.splits if_splits)
  from h pi obtain f s3 where pf: "parse_frac s2 = Some (f, s3)"
    by (cases "parse_frac s2") (auto simp add: parse_number_def s1_def split: list.splits if_splits)
  from h pi pf obtain e where pe: "parse_exp s3 = Some (e, r)"
    by (cases "parse_exp s3") (auto simp add: parse_number_def s1_def split: list.splits if_splits)
  from parse_int_shorter [OF pi] parse_frac_le [OF pf] parse_exp_le [OF pe] s1
  show ?thesis by simp
qed

lemma literal_shorter: "literal w v s = Some (u, r) \<Longrightarrow> w \<noteq> [] \<Longrightarrow> length r < length s"
proof -
  assume h: "literal w v s = Some (u, r)" and ne: "w \<noteq> []"
  then have t: "take (length w) s = str w" and r: "r = drop (length w) s"
    by (auto simp add: literal_def split: if_splits)
  from t have "length (take (length w) s) = length w" by (simp add: str_def)
  then have "length w \<le> length s" by simp
  then show ?thesis using r ne by (cases w) auto
qed

lemma parse_value_shorter: "parse_value s = Some (v, r) \<Longrightarrow> length r < length s"
proof (cases s)
  case Nil
  assume "parse_value s = Some (v, r)"
  with Nil show ?thesis by (simp add: parse_value.simps)
next
  case (Cons c cs)
  assume h: "parse_value s = Some (v, r)"
  consider "c = 0x7B" | "c = 0x5B" | "c = 0x22" | "c = 0x74" | "c = 0x66" | "c = 0x6E"
    | "c \<notin> {0x7B, 0x5B, 0x22, 0x74, 0x66, 0x6E}" by blast
  then show ?thesis
  proof cases
    case 1
    with h Cons obtain d r0 where sk: "skip_ws cs = d # r0"
      and alt: "(d = 0x7D \<and> r = r0) \<or> (\<exists>kvs. parse_members (d # r0) = Some (kvs, r))"
      by (auto simp add: parse_value.simps split: list.splits if_splits option.splits)
    from sk have l: "length r0 < length cs" by (rule skip_ws_Cons_length)
    from alt show ?thesis
    proof
      assume "d = 0x7D \<and> r = r0" then show ?thesis using l Cons by simp
    next
      assume "\<exists>kvs. parse_members (d # r0) = Some (kvs, r)"
      then obtain kvs where "parse_members (d # r0) = Some (kvs, r)" by blast
      from parse_members_shorter [OF this] show ?thesis using l Cons by simp
    qed
  next
    case 2
    with h Cons obtain d r0 where sk: "skip_ws cs = d # r0"
      and alt: "(d = 0x5D \<and> r = r0) \<or> (\<exists>vs. parse_elements (d # r0) = Some (vs, r))"
      by (auto simp add: parse_value.simps split: list.splits if_splits option.splits)
    from sk have l: "length r0 < length cs" by (rule skip_ws_Cons_length)
    from alt show ?thesis
    proof
      assume "d = 0x5D \<and> r = r0" then show ?thesis using l Cons by simp
    next
      assume "\<exists>vs. parse_elements (d # r0) = Some (vs, r)"
      then obtain vs where "parse_elements (d # r0) = Some (vs, r)" by blast
      from parse_elements_shorter [OF this] show ?thesis using l Cons by simp
    qed
  next
    case 3
    with h Cons obtain k where "parse_chars cs = Some (k, r)"
      by (auto simp add: parse_value.simps split: option.splits)
    from parse_chars_shorter [OF this] show ?thesis using Cons by simp
  next
    case 4
    with h Cons have "literal ''true'' (JBool True) s = Some (v, r)" by (simp add: parse_value.simps)
    from literal_shorter [OF this] show ?thesis by simp
  next
    case 5
    with h Cons have "literal ''false'' (JBool False) s = Some (v, r)" by (simp add: parse_value.simps)
    from literal_shorter [OF this] show ?thesis by simp
  next
    case 6
    with h Cons have "literal ''null'' JNull s = Some (v, r)" by (simp add: parse_value.simps)
    from literal_shorter [OF this] show ?thesis by simp
  next
    case 7
    with h Cons obtain n where "parse_number s = Some (n, r)"
      by (auto simp add: parse_value.simps split: option.splits)
    from parse_number_shorter [OF this] show ?thesis .
  qed
qed

text \<open>So the comparisons of lengths in the parser always succeed: the two functions
  satisfy the equations without them.\<close>

lemma parse_elements_unguarded:
  "parse_elements s =
     (case parse_value s of
        None \<Rightarrow> None
      | Some (v, r) \<Rightarrow>
          (case skip_ws r of
             [] \<Rightarrow> None
           | d # r' \<Rightarrow>
               if d = 0x2C then
                 (case parse_elements (skip_ws r') of
                    None \<Rightarrow> None
                  | Some (vs, r'') \<Rightarrow> Some (v # vs, r''))
               else if d = 0x5D then Some ([v], r')
               else None))"
  by (subst parse_elements.simps) (auto split: option.splits dest: parse_value_shorter)

lemma parse_members_unguarded:
  "parse_members s =
     (case s of
        [] \<Rightarrow> None
      | q # s1 \<Rightarrow>
          if q = 0x22 then
            (case parse_chars s1 of
               None \<Rightarrow> None
             | Some (k, s2) \<Rightarrow>
                 (case skip_ws s2 of
                    [] \<Rightarrow> None
                  | col # s3 \<Rightarrow>
                      if col = 0x3A then
                        (case parse_value (skip_ws s3) of
                           None \<Rightarrow> None
                         | Some (v, r) \<Rightarrow>
                             (case skip_ws r of
                                [] \<Rightarrow> None
                              | d # r' \<Rightarrow>
                                  if d = 0x2C then
                                    (case parse_members (skip_ws r') of
                                       None \<Rightarrow> None
                                     | Some (kvs, r'') \<Rightarrow> Some ((k, v) # kvs, r''))
                                  else if d = 0x7D then Some ([(k, v)], r')
                                  else None))
                      else None))
          else None)"
proof -
  have le: "\<And>s1 k s2 col s3 v r q. parse_chars s1 = Some (k, s2) \<Longrightarrow> skip_ws s2 = col # s3 \<Longrightarrow>
      parse_value (skip_ws s3) = Some (v, r) \<Longrightarrow> length r < length (q # s1)"
  proof -
    fix s1 k s2 col s3 v r and q :: jschar
    assume a: "parse_chars s1 = Some (k, s2)" and b: "skip_ws s2 = col # s3"
      and c: "parse_value (skip_ws s3) = Some (v, r)"
    from parse_chars_shorter [OF a] skip_ws_Cons_length [OF b] length_skip_ws [of s3]
      parse_value_shorter [OF c]
    show "length r < length (q # s1)" by simp
  qed
  show ?thesis
    by (subst parse_members.simps) (auto split: option.splits list.splits dest: le)
qed

section \<open>Facts about export and restore\<close>

lemma plain_step_json: "plain (step_json s)"
  by (simp add: step_json_def str_eq_iff)

lemma plain_list_steps: "plain_list (map step_json xs)"
  by (induction xs) (simp_all add: plain_step_json)

lemma plain_toJson: "plain (toJson d)"
  by (simp add: toJson_def str_eq_iff plain_list_steps split: option.splits)

lemma is_object_toJson: "is_object (toJson d)"
  by (simp add: toJson_def)

lemma step_json_inject: "step_json s = step_json t \<Longrightarrow> s = t"
  by (cases s; cases t) (simp add: step_json_def)

lemma steps_json_inject: "map step_json xs = map step_json ys \<Longrightarrow> xs = ys"
proof (induction xs arbitrary: ys)
  case Nil
  then show ?case by simp
next
  case (Cons x xs)
  then obtain y ys' where "ys = y # ys'" by (cases ys) auto
  with Cons show ?case by (auto dest: step_json_inject)
qed

lemma type_str_inject: "type_str a = type_str b \<Longrightarrow> a = b"
  by (cases a; cases b) (simp_all add: str_eq_iff)

lemma env_str_inject: "env_str a = env_str b \<Longrightarrow> a = b"
  by (cases a; cases b) (simp_all add: str_eq_iff)

lemma concl_str_inject: "concl_str a = concl_str b \<Longrightarrow> a = b"
  by (cases a; cases b) (simp_all add: str_eq_iff)

lemma toJson_inject: "toJson d = toJson e \<Longrightarrow> d = e"
proof -
  assume h: "toJson d = toJson e"
  then have "jiraNumber d = jiraNumber e" "jiraName d = jiraName e" "date d = date e"
    "type_str (type_field d) = type_str (type_field e)"
    "env_str (environment d) = env_str (environment e)"
    "concl_str (conclusion d) = concl_str (conclusion e)"
    "localImage d = localImage e"
    "map step_json (steps d) = map step_json (steps e)"
    by (simp_all add: toJson_def split: option.splits)
  then show ?thesis
    by (cases d; cases e) (auto dest: type_str_inject env_str_inject concl_str_inject steps_json_inject)
qed

lemma export_parses: "JSON_parse (blob_text (JSON_stringify (toJson d))) = Some (toJson d)"
  by (simp add: blob_text_stringify JSON_roundtrip plain_toJson)

lemma parse_empty_object: "JSON_parse (str ''{}'') = Some (JObj [])"
  by (simp add: JSON_parse_def parse_value.simps skip_ws_def is_ws_def str_def)

lemma parse_open_brace: "JSON_parse (str ''{'') = None"
  by (simp add: JSON_parse_def parse_value.simps skip_ws_def is_ws_def str_def)

lemma parse_five: "JSON_parse (str ''5'') = Some (JNum (str ''5''))"
  by (simp add: JSON_parse_def parse_value.simps skip_ws_def is_ws_def str_def parse_number_def
      parse_int_def parse_frac_def parse_exp_def digits1_def isDigit_def)

lemma step_of_step_json: "step_of (step_json s) = Some s"
  by (simp add: step_of_def step_json_def get_prop_def str_eq_iff)

lemma steps_of_steps_json: "steps_of (map step_json xs) = Some xs"
  by (induction xs) (simp_all add: step_of_step_json)

lemma type_of_type_str: "type_of_str (type_str t) = Some t"
  by (cases t) (simp_all add: type_of_str_def str_eq_iff)

lemma env_of_env_str: "env_of_str (env_str e) = Some e"
  by (cases e) (simp_all add: env_of_str_def str_eq_iff)

lemma concl_of_concl_str: "concl_of_str (concl_str c) = Some c"
  by (cases c) (simp_all add: concl_of_str_def str_eq_iff)

lemma document_of_toJson: "document_of (toJson d) = Some d"
  by (cases "localImage d")
    (simp_all add: document_of_def toJson_def get_prop_def str_eq_iff steps_of_steps_json
      type_of_type_str env_of_env_str concl_of_concl_str)

lemma exported_text_eq: "exported_text st = JSON_stringify (toJson (data st))"
  by (simp add: exported_text_def downloadJSON_def)

lemma doc1_exported: "JSON_stringify (toJson doc1) = doc1_text"
  by code_simp

section \<open>The claims\<close>

text \<open>
  C1. The preview modal and the hidden print template render the same document through
  the same call of \<open>PrintContent\<close>: the children of the two framing containers are equal,
  each tree holds exactly one content section, and the two content sections are the same
  markup. Only the classes of the framing elements differ.
\<close>

theorem render_paths_agree:
  "container_children (preview_pane f d) = container_children (print_template f d) \<and>
   by_class (str ''pdf-content'') (preview_pane f d) =
     by_class (str ''pdf-content'') (print_template f d) \<and>
   by_class (str ''pdf-content'') (print_template f d) = [pdf_content d (jiraDigits d)]"
  by (simp add: container_children_def preview_pane_def print_template_def
      content_in_PrintContent by_class_footer cls_def str_eq_iff)

text \<open>
  C3, as the code has it. \<open>updateStep\<close> with an id that no step carries leaves the
  whole state as it was and reports nothing: the handler returns normally with no
  effect. The source has no error for a missing step.
\<close>

theorem updateStep_absent_silent:
  "i \<notin> set (map id_step (steps (data st))) \<Longrightarrow> updateStep_handler i updates st = (st, [])"
  by (simp add: updateStep_handler_def updateStep_def not_in_ids_map)

theorem updateStep_absent_silent_witness:
  "str ''id-2'' \<notin> set (map id_step (steps (data state0))) \<and>
   updateStep_handler (str ''id-2'')
     \<lparr>upd_id = None, upd_title = Some (str ''t''), upd_content = None\<rparr> state0 = (state0, [])"
proof -
  have h: "str ''id-2'' \<notin> set (map id_step (steps (data state0)))"
    by (simp add: state0_def doc0_def INITIAL_DATA_def str_eq_iff)
  show ?thesis using h updateStep_absent_silent [OF h] by simp
qed

text \<open>
  C3, as the specification words it, fails: on the initial document, an update of the
  title of a step \<open>id-2\<close> that does not exist ends with no effect at all, so no
  failure of any kind is reported.
\<close>

theorem updateStep_no_StepNotFound:
  "str ''id-2'' \<notin> set (map id_step (steps (data state0))) \<and>
   snd (updateStep_handler (str ''id-2'')
     \<lparr>upd_id = None, upd_title = Some (str ''t''), upd_content = None\<rparr> state0) = []"
  by (simp add: updateStep_handler_def state0_def doc0_def INITIAL_DATA_def str_eq_iff)

text \<open>
  C5, evaluated on the code. The step content is the empty string and the surface holds
  the placeholder of an empty editor. Both effects assign the buffer: the effect on
  \<open>value\<close> because the two strings differ, the mount effect because its branch for
  the empty value comes before the branch that would ignore the placeholder.
\<close>

theorem placeholder_is_overwritten:
  "value_effect [] (Some empty_surface) = Some \<lparr>innerHTML = [], writes = 1\<rparr> \<and>
   mount_effect True empty_surface [] None = Some \<lparr>innerHTML = [], writes = 1\<rparr>"
  by (simp add: value_effect_def mount_effect_def assign_innerHTML_def empty_surface_def
      placeholder_def str_def)




text \<open>
  C7, as the specification words it, fails: in a document where two steps carry the
  same identifier, \<open>removeStep\<close> with that identifier removes both.
\<close>

theorem removeStep_drops_every_match:
  "map id_step (steps doc_dup) = [str ''id-1'', str ''id-1'', str ''id-3''] \<and>
   map id_step (steps (removeStep (str ''id-1'') doc_dup)) = [str ''id-3'']"
  by (simp add: removeStep_def doc_dup_def str_eq_iff)

text \<open>
  C7, as the code has it. \<open>removeStep\<close> with an id that no step carries returns the
  document it was given. Otherwise it removes every step that carries the id and
  nothing else: the other steps stay, the same records in the same order, so with their
  titles, and no other field changes. In a document whose step ids are distinct that is
  exactly one step.
\<close>

theorem removeStep_keeps_the_others:
  "(i \<notin> set (map id_step (steps d)) \<longrightarrow> removeStep i d = d) \<and>
   removeStep i d = d\<lparr>steps := steps (removeStep i d)\<rparr> \<and>
   steps (removeStep i d) = filter (\<lambda>step. id_step step \<noteq> i) (steps d) \<and>
   i \<notin> set (map id_step (steps (removeStep i d))) \<and>
   (\<forall>s \<in> set (steps d). id_step s \<noteq> i \<longrightarrow> s \<in> set (steps (removeStep i d))) \<and>
   length (steps d) =
     length (steps (removeStep i d)) + length (filter (\<lambda>step. id_step step = i) (steps d)) \<and>
   map title (steps (removeStep i d)) = map title (filter (\<lambda>step. id_step step \<noteq> i) (steps d)) \<and>
   (distinct (map id_step (steps d)) \<and> s \<in> set (steps d) \<longrightarrow>
      removeStep (id_step s) d = d\<lparr>steps := remove1 s (steps d)\<rparr> \<and>
      map title (steps (removeStep (id_step s) d)) = map title (remove1 s (steps d)))"
proof -
  have len: "length (steps d) =
     length (filter (\<lambda>step. id_step step \<noteq> i) (steps d)) + length (filter (\<lambda>step. id_step step = i) (steps d))"
    using sum_length_filter_compl [of "\<lambda>step. id_step step = i" "steps d"] by simp
  show ?thesis using len
    by (auto simp add: removeStep_def not_in_ids_filter distinct_ids_filter)
qed

theorem removeStep_keeps_the_others_witness:
  "map id_step (steps doc3) = [str ''id-1'', str ''id-2'', str ''id-3''] \<and>
   removeStep (str ''id-9'') doc3 = doc3 \<and>
   steps (removeStep (str ''id-2'') doc3) =
     [\<lparr>id_step = str ''id-1'', title = etape @ str ''1'', content = []\<rparr>,
      \<lparr>id_step = str ''id-3'', title = etape @ str ''3'', content = []\<rparr>] \<and>
   map title (steps (removeStep (str ''id-2'') doc3)) = [etape @ str ''1'', etape @ str ''3'']"
proof -
  let ?s2 = "\<lparr>id_step = str ''id-2'', title = etape @ str ''2'', content = []\<rparr>"
  have ids: "map id_step (steps doc3) = [str ''id-1'', str ''id-2'', str ''id-3'']"
    by (simp add: doc3_def)
  have a: "str ''id-9'' \<notin> set (map id_step (steps doc3))"
    by (simp add: ids str_eq_iff)
  have b: "distinct (map id_step (steps doc3))"
    by (simp add: ids str_eq_iff)
  have m: "?s2 \<in> set (steps doc3)"
    by (simp add: doc3_def)
  have r: "remove1 ?s2 (steps doc3) =
     [\<lparr>id_step = str ''id-1'', title = etape @ str ''1'', content = []\<rparr>,
      \<lparr>id_step = str ''id-3'', title = etape @ str ''3'', content = []\<rparr>]"
    by (simp add: doc3_def str_eq_iff)
  from removeStep_keeps_the_others [of "str ''id-9''" doc3] a
  have n: "removeStep (str ''id-9'') doc3 = doc3" by blast
  from removeStep_keeps_the_others [of "str ''id-9''" doc3 ?s2] b m
  have "removeStep (id_step ?s2) doc3 = doc3\<lparr>steps := remove1 ?s2 (steps doc3)\<rparr>"
    by blast
  then have e: "steps (removeStep (str ''id-2'') doc3) = remove1 ?s2 (steps doc3)"
    by simp
  show ?thesis using ids n by (simp add: e r)
qed

text \<open>
  C8. \<open>jiraDigits\<close> keeps the decimal digits of \<open>jiraNumber\<close>, in their order, and
  nothing else. The SQL block of the rendered content, in the print template and in the
  preview, reads the fixed beginning of the query, then the digits, or \<open>XXXX\<close> when
  there is none, then the fixed end; \<open>sqlQuery\<close> of the form is the same string, and
  the block of the first revision embeds the same digits in its own query. For
  \<open>ERP-1234\<close> the embedded string is \<open>1234\<close>; for a number with no digit it is
  \<open>XXXX\<close>.
\<close>

theorem sql_snippet_digits:
  "jiraDigits d = filter isDigit (jiraNumber d) \<and>
   map child_text (by_class (str ''sql-block'') (print_template f d)) =
     [sql_prefix @ js_or (jiraDigits d) (str ''XXXX'') @ sql_suffix] \<and>
   map child_text (by_class (str ''sql-block'') (preview_pane f d)) =
     [sql_prefix @ js_or (jiraDigits d) (str ''XXXX'') @ sql_suffix] \<and>
   sqlQuery d = sql_prefix @ js_or (jiraDigits d) (str ''XXXX'') @ sql_suffix \<and>
   map child_text (by_class (str ''sql-block'') (sql_block_v1 (jiraDigits d))) =
     [sql_prefix_v1 @ js_or (jiraDigits d) (str ''XXXX'') @ sql_suffix_v1] \<and>
   (jiraNumber d = str ''ERP-1234'' \<longrightarrow> js_or (jiraDigits d) (str ''XXXX'') = str ''1234'') \<and>
   ((\<forall>c \<in> set (jiraNumber d). \<not> isDigit c) \<longrightarrow> js_or (jiraDigits d) (str ''XXXX'') = str ''XXXX'')"
proof -
  have digits: "jiraDigits d = filter isDigit (jiraNumber d)"
    by (simp add: jiraDigits_def replace_non_digits_filter)
  have tmpl: "map child_text (by_class (str ''sql-block'') (print_template f d)) =
     [sql_prefix @ js_or (jiraDigits d) (str ''XXXX'') @ sql_suffix]"
    by (simp add: print_template_def sql_block_in_PrintContent by_class_footer cls_def
        str_eq_iff child_text_def)
  have prev: "map child_text (by_class (str ''sql-block'') (preview_pane f d)) =
     [sql_prefix @ js_or (jiraDigits d) (str ''XXXX'') @ sql_suffix]"
    by (simp add: preview_pane_def sql_block_in_PrintContent by_class_footer cls_def
        str_eq_iff child_text_def)
  have v1: "map child_text (by_class (str ''sql-block'') (sql_block_v1 (jiraDigits d))) =
     [sql_prefix_v1 @ js_or (jiraDigits d) (str ''XXXX'') @ sql_suffix_v1]"
    by (simp add: sql_block_v1_def cls_def str_eq_iff child_text_def)
  have erp: "jiraNumber d = str ''ERP-1234'' \<longrightarrow> js_or (jiraDigits d) (str ''XXXX'') = str ''1234''"
    by (simp add: digits js_or_def str_def isDigit_def)
  have none: "(\<forall>c \<in> set (jiraNumber d). \<not> isDigit c) \<longrightarrow>
      js_or (jiraDigits d) (str ''XXXX'') = str ''XXXX''"
    by (simp add: digits js_or_def filter_empty_conv)
  have q: "sqlQuery d = sql_prefix @ js_or (jiraDigits d) (str ''XXXX'') @ sql_suffix"
    by (simp add: sqlQuery_def)
  show ?thesis using digits tmpl prev q v1 erp none by blast
qed

theorem sql_snippet_digits_witness:
  "jiraNumber (doc0\<lparr>jiraNumber := str ''ERP-1234''\<rparr>) = str ''ERP-1234'' \<and>
   sqlQuery (doc0\<lparr>jiraNumber := str ''ERP-1234''\<rparr>) = sql_prefix @ str ''1234'' @ sql_suffix \<and>
   filter isDigit (jiraNumber (doc0\<lparr>jiraNumber := str ''ERP-''\<rparr>)) = [] \<and>
   sqlQuery (doc0\<lparr>jiraNumber := str ''ERP-''\<rparr>) = sql_prefix @ str ''XXXX'' @ sql_suffix"
proof -
  have a: "jiraNumber (doc0\<lparr>jiraNumber := str ''ERP-1234''\<rparr>) = str ''ERP-1234''"
    by simp
  have b: "\<forall>c \<in> set (jiraNumber (doc0\<lparr>jiraNumber := str ''ERP-''\<rparr>)). \<not> isDigit c"
    by (simp add: str_def isDigit_def)
  note t1 = sql_snippet_digits [of "doc0\<lparr>jiraNumber := str ''ERP-1234''\<rparr>" id]
  note t2 = sql_snippet_digits [of "doc0\<lparr>jiraNumber := str ''ERP-''\<rparr>" id]
  from t1 a have e1: "js_or (jiraDigits (doc0\<lparr>jiraNumber := str ''ERP-1234''\<rparr>)) (str ''XXXX'') = str ''1234''"
    by blast
  from t1 have q1: "sqlQuery (doc0\<lparr>jiraNumber := str ''ERP-1234''\<rparr>) =
      sql_prefix @ js_or (jiraDigits (doc0\<lparr>jiraNumber := str ''ERP-1234''\<rparr>)) (str ''XXXX'') @ sql_suffix"
    by blast
  from t2 b have e2: "js_or (jiraDigits (doc0\<lparr>jiraNumber := str ''ERP-''\<rparr>)) (str ''XXXX'') = str ''XXXX''"
    by blast
  from t2 have q2: "sqlQuery (doc0\<lparr>jiraNumber := str ''ERP-''\<rparr>) =
      sql_prefix @ js_or (jiraDigits (doc0\<lparr>jiraNumber := str ''ERP-''\<rparr>)) (str ''XXXX'') @ sql_suffix"
    by blast
  have c: "filter isDigit (jiraNumber (doc0\<lparr>jiraNumber := str ''ERP-''\<rparr>)) = []"
    by (simp add: str_def isDigit_def)
  show ?thesis using a c by (simp only: q1 q2 e1 e2)
qed

text \<open>
  C9. When the buffer of the surface already equals the incoming content, the effect
  on \<open>value\<close> leaves the surface as it is, with no assignment counted; so running the
  effect a second time with the same content changes nothing.
\<close>

theorem value_effect_idempotent:
  "(innerHTML q = c \<longrightarrow> value_effect c (Some q) = Some q) \<and>
   value_effect c (value_effect c r) = value_effect c r"
  by (cases r) (simp_all add: value_effect_def assign_innerHTML_def)

theorem value_effect_idempotent_witness:
  "innerHTML empty_surface = placeholder \<and>
   value_effect placeholder (Some empty_surface) = Some empty_surface \<and>
   writes (the (value_effect (str ''<p>a</p>'') (value_effect (str ''<p>a</p>'') (Some empty_surface)))) = 1"
proof -
  have h: "innerHTML empty_surface = placeholder"
    by (simp add: empty_surface_def)
  have w: "writes (the (value_effect (str ''<p>a</p>'') (Some empty_surface))) = 1"
    by (simp add: value_effect_def assign_innerHTML_def empty_surface_def placeholder_def str_eq_iff)
  show ?thesis
    using h w value_effect_idempotent [of empty_surface placeholder]
      value_effect_idempotent [of _ "str ''<p>a</p>''" "Some empty_surface"]
    by simp
qed

text \<open>
  C10. When \<open>jiraNumber\<close> or \<open>jiraName\<close> is the empty string, \<open>handlePrint\<close> and
  \<open>generatePDF\<close> show the message and return: the state, with the document, is the one
  they were given, and the only effect is the dialog, so neither the print call nor
  the PDF timer is reached.
\<close>

theorem print_refused_when_unnamed:
  "jiraNumber d = [] \<or> jiraName d = [] \<Longrightarrow>
     handlePrint \<lparr>data = d, isPreviewOpen = p, copied = c\<rparr>
       = (\<lparr>data = d, isPreviewOpen = p, copied = c\<rparr>, [Alert fill_in_message]) \<and>
     generatePDF \<lparr>data_v1 = d, isGenerating = g\<rparr>
       = (\<lparr>data_v1 = d, isGenerating = g\<rparr>, [Alert fill_in_message])"
  by (simp add: handlePrint_def generatePDF_def)

theorem print_refused_when_unnamed_witness:
  "(jiraNumber doc0 = [] \<or> jiraName doc0 = []) \<and>
   handlePrint state0 = (state0, [Alert fill_in_message]) \<and>
   generatePDF \<lparr>data_v1 = doc0, isGenerating = False\<rparr>
     = (\<lparr>data_v1 = doc0, isGenerating = False\<rparr>, [Alert fill_in_message])"
proof -
  have h: "jiraNumber doc0 = [] \<or> jiraName doc0 = []"
    by (simp add: doc0_def INITIAL_DATA_def)
  show ?thesis
    using h print_refused_when_unnamed [OF h, of False False False] by (simp add: state0_def)
qed

text \<open>
  C2. \<open>downloadJSON\<close> offers the serialization of the stored document. Read back from
  the downloaded file, that text parses to the value of the same document, and
  \<open>handleFileUpload\<close> stores exactly that value and announces the restore, whatever
  the state was before. The document read out of the restored state, property by
  property, is the document that was exported; restoring the export of the current
  state gives the current state. For the filled example the exported text is the one
  written out above.
\<close>

theorem export_restore_roundtrip:
  "downloadJSON st =
     (st, [Download (str ''cahier-recette-'' @ js_or (jiraNumber (data st)) (str ''export'') @ str ''.json'')
             (JSON_stringify (toJson (data st)))]) \<and>
   JSON_parse (blob_text (JSON_stringify (toJson d))) = Some (toJson d) \<and>
   handleFileUpload (Some (blob_text (JSON_stringify (toJson d)))) st' =
     (st'\<lparr>data := toJson d\<rparr>, [Alert restored_message]) \<and>
   handleFileUpload (Some (blob_text (JSON_stringify (toJson (data st))))) (runtime st) =
     (runtime st, [Alert restored_message]) \<and>
   document_of (data (fst (handleFileUpload (Some (blob_text (exported_text st))) st'))) =
     Some (data st) \<and>
   snd (handleFileUpload (Some (blob_text (exported_text st))) st') = [Alert restored_message] \<and>
   exported_text \<lparr>data = doc1, isPreviewOpen = False, copied = False\<rparr> = doc1_text"
  by (simp add: downloadJSON_def handleFileUpload_def export_parses is_object_toJson runtime_def
      exported_text_def document_of_toJson doc1_exported)

text \<open>
  C4, as the specification words it, fails: the text \<^verbatim>\<open>{}\<close> parses to an object with
  no \<open>steps\<close>, and \<open>handleFileUpload\<close> stores it in place of the document and
  announces a successful restore.
\<close>

theorem restore_accepts_missing_steps:
  "handleFileUpload (Some (str ''{}'')) (runtime state0) =
     (\<lparr>data = JObj [], isPreviewOpen = False, copied = False\<rparr>, [Alert restored_message]) \<and>
   data (runtime state0) \<noteq> JObj []"
  by (simp add: handleFileUpload_def parse_empty_object runtime_def state0_def toJson_def)

text \<open>
  C4, as the code has it. A restore either replaces the stored value as a whole or
  leaves the state as it was. \<open>handleFileUpload\<close> reports an error, with the state
  unchanged, exactly when the text is not JSON; a JSON value that is neither an object
  nor an array is dropped without a message; an object or an array, whatever its
  properties, becomes the stored value. \<open>restoreFromLocalStorage\<close> of the first revision
  stores any JSON value and ends with the exception of the parser, the state unchanged,
  when the text is not JSON.
\<close>

theorem restore_all_or_nothing:
  "(JSON_parse text = None \<longrightarrow>
      handleFileUpload (Some text) st = (st, [Alert read_error_message])) \<and>
   (JSON_parse text = Some v \<and> \<not> is_object v \<longrightarrow> handleFileUpload (Some text) st = (st, [])) \<and>
   (JSON_parse text = Some v \<and> is_object v \<longrightarrow>
      handleFileUpload (Some text) st = (st\<lparr>data := v\<rparr>, [Alert restored_message])) \<and>
   (JSON_parse text = None \<and> text \<noteq> [] \<longrightarrow>
      restoreFromLocalStorage (Some text) st1 = (st1, [Uncaught_SyntaxError])) \<and>
   (JSON_parse text = Some v \<and> text \<noteq> [] \<longrightarrow>
      restoreFromLocalStorage (Some text) st1 = (st1\<lparr>data_v1 := v\<rparr>, [Alert restored_message_v1]))"
  by (simp add: handleFileUpload_def restoreFromLocalStorage_def)

theorem restore_all_or_nothing_witness:
  "JSON_parse (str ''{'') = None \<and>
   handleFileUpload (Some (str ''{'')) (runtime state0) = (runtime state0, [Alert read_error_message]) \<and>
   JSON_parse (str ''5'') = Some (JNum (str ''5'')) \<and>
   handleFileUpload (Some (str ''5'')) (runtime state0) = (runtime state0, []) \<and>
   JSON_parse (str ''{}'') = Some (JObj []) \<and>
   handleFileUpload (Some (str ''{}'')) (runtime state0) =
     ((runtime state0)\<lparr>data := JObj []\<rparr>, [Alert restored_message]) \<and>
   restoreFromLocalStorage (Some (str ''{'')) \<lparr>data_v1 = toJson doc0, isGenerating = False\<rparr> =
     (\<lparr>data_v1 = toJson doc0, isGenerating = False\<rparr>, [Uncaught_SyntaxError]) \<and>
   restoreFromLocalStorage (Some (str ''5'')) \<lparr>data_v1 = toJson doc0, isGenerating = False\<rparr> =
     (\<lparr>data_v1 = JNum (str ''5''), isGenerating = False\<rparr>, [Alert restored_message_v1])"
proof -
  have n1: "str ''{'' \<noteq> []" and n2: "str ''5'' \<noteq> []" by (simp_all add: str_def)
  have o1: "\<not> is_object (JNum (str ''5''))" and o2: "is_object (JObj [])" by simp_all
  note a = restore_all_or_nothing [of "str ''{''" "runtime state0" _ "\<lparr>data_v1 = toJson doc0, isGenerating = False\<rparr>"]
  note b = restore_all_or_nothing [of "str ''5''" "runtime state0" "JNum (str ''5'')"
      "\<lparr>data_v1 = toJson doc0, isGenerating = False\<rparr>"]
  note c = restore_all_or_nothing [of "str ''{}''" "runtime state0" "JObj []"]
  from a parse_open_brace n1 have
    a1: "handleFileUpload (Some (str ''{'')) (runtime state0) = (runtime state0, [Alert read_error_message])"
    and a2: "restoreFromLocalStorage (Some (str ''{'')) \<lparr>data_v1 = toJson doc0, isGenerating = False\<rparr> =
     (\<lparr>data_v1 = toJson doc0, isGenerating = False\<rparr>, [Uncaught_SyntaxError])"
    by blast+
  from b parse_five n2 o1 have
    b1: "handleFileUpload (Some (str ''5'')) (runtime state0) = (runtime state0, [])"
    and b2: "restoreFromLocalStorage (Some (str ''5'')) \<lparr>data_v1 = toJson doc0, isGenerating = False\<rparr> =
     (\<lparr>data_v1 = toJson doc0, isGenerating = False\<rparr>\<lparr>data_v1 := JNum (str ''5'')\<rparr>, [Alert restored_message_v1])"
    by blast+
  from c parse_empty_object o2 have
    c1: "handleFileUpload (Some (str ''{}'')) (runtime state0) =
     ((runtime state0)\<lparr>data := JObj []\<rparr>, [Alert restored_message])"
    by blast
  show ?thesis using a1 a2 b1 b2 c1 parse_open_brace parse_five parse_empty_object by simp
qed

end
